theory Spec2Isabelle
  imports Complex_Main
begin

section \<open>Data model of the focus tracker (core/src/State/FocusedElement.ts)\<close>

text \<open>
  DOM elements are compared by identity only, so an element is a natural number.
  Objects of the collaborators (roots, modalizers, groupers) are records of the values
  their getters return.
\<close>

type_synonym elem = nat
type_synonym document = nat

record FocusedElementDetails =
  relatedTarget :: "elem option"
  isFocusedProgrammatically :: "bool option"

text \<open>The object \<^verbatim>\<open>{ element, details }\<close> held in \<^verbatim>\<open>_nextVal\<close>. It is compared with
  \<^verbatim>\<open>===\<close>, that is by identity: \<open>addr\<close> is the address of the object.\<close>

record snapshot =
  addr :: nat
  snapElement :: "elem option"
  snapDetails :: FocusedElementDetails

record Root =
  uid :: string
  rootElement :: elem

record Modalizer =
  userId :: string
  modalizerElement :: elem

record RootAndModalizer =
  ramRoot :: Root
  ramModalizer :: "Modalizer option"

datatype GroupperFocusLimit = Unlimited | Limited | LimitedTrapFocus

text \<open>Modelled from the spec: the enum \<^verbatim>\<open>Types.GroupperNextDirection\<close> is declared in
  Types.ts, which is not part of the unit; the spec gives its values as Vertical, Horizontal
  and Both.\<close>

datatype GroupperNextDirection = Both | Vertical | Horizontal

record Groupper =
  groupperElement :: elem
  basicIsLimited :: "GroupperFocusLimit option"
  nextDirection :: "GroupperNextDirection option"

record AbilityHelpersOnElement =
  ahGroupper :: "Groupper option"

record DOMRect =
  rectTop :: real
  rectLeft :: real

text \<open>The key codes of \<^verbatim>\<open>Keys\<close> the handler tells apart; every other code is \<open>OtherKey\<close>.\<close>

datatype Keys = Enter | Esc | Tab | Down | Right | Up | Left | PageDown | PageUp | Home | End
  | OtherKey nat

text \<open>The function stored in \<^verbatim>\<open>HTMLElement.prototype.focus\<close>: the platform's own one, the
  closure \<^verbatim>\<open>focus\<close> created by \<^verbatim>\<open>replaceFocus\<close>, whose property \<^verbatim>\<open>__ahFocus\<close> is the
  function it wraps. \<open>Native\<close> carries no such property.\<close>

datatype focus_fn = Native | Wrapper focus_fn

datatype listener_target = OnDocument | OnWindow
datatype handler_name = HOnFocusIn | HOnFocusOut | HOnMouseDown | HOnKeyDown

record listener =
  lTarget :: listener_target
  lType :: string
  lHandler :: handler_name
  lCapture :: bool

text \<open>Calls that leave the unit (collaborator mutators, event methods, subscriber callbacks)
  are appended to a trace, together with the allocations of snapshot objects.\<close>

datatype call =
    NewSnapshot nat "elem option" FocusedElementDetails
  | SetVal "elem option" FocusedElementDetails
  | Notify "elem option" FocusedElementDetails
  | SetCurrentGroupper elem
  | SetCurrentModalizerId string string
  | PreventDefault
  | StopImmediatePropagation
  | CallOriginalFocusOnly elem
  | SetUnlimited elem bool
  | SetKeyboardNavigation bool
  | ScrollIntoView elem bool
  | MoveOutWithDefaultAction string bool
  | OnBeforeFocusOut string
  | UncaughtError string

record world =
  lastFocusedProgrammatically :: "elem option"
  lastResetElement :: "elem option"
  canOverrideNativeFocusFlag :: bool
  initTimer :: "nat option"
  nextVal :: "snapshot option"
  val :: "elem option"
  lastVal :: "elem option"
  prevVal :: "elem option"
  heapTop :: nat
  attrs :: "elem \<Rightarrow> string \<Rightarrow> string option"
  activeElement :: "elem option"
  protoFocus :: focus_fn
  listeners :: "listener list"
  trace :: "call list"

text \<open>The collaborators, consumed through their contracts only. Each query reads the
  current world, so its answer may change when the world does.\<close>

record env =
  isFocusable :: "world \<Rightarrow> elem \<Rightarrow> bool \<Rightarrow> bool \<Rightarrow> bool \<Rightarrow> bool"
  isVisible :: "world \<Rightarrow> elem \<Rightarrow> bool"
  findFirst :: "world \<Rightarrow> elem \<Rightarrow> bool \<Rightarrow> bool \<Rightarrow> bool \<Rightarrow> elem option"
  findLast :: "world \<Rightarrow> elem \<Rightarrow> elem option"
  findNext :: "world \<Rightarrow> elem \<Rightarrow> elem option \<Rightarrow> elem option"
  findPrev :: "world \<Rightarrow> elem \<Rightarrow> elem option"
  findDefault :: "world \<Rightarrow> elem \<Rightarrow> elem option"
  findGroupper :: "world \<Rightarrow> elem \<Rightarrow> elem option"
  findFirstGroupper :: "world \<Rightarrow> elem \<Rightarrow> elem option"
  findLastGroupper :: "world \<Rightarrow> elem \<Rightarrow> elem option"
  findNextGroupper :: "world \<Rightarrow> elem \<Rightarrow> elem option"
  findPrevGroupper :: "world \<Rightarrow> elem \<Rightarrow> elem option"
  isInCurrentGroupper :: "world \<Rightarrow> elem \<Rightarrow> bool"
  getAbilityHelpersOnElement :: "world \<Rightarrow> elem \<Rightarrow> AbilityHelpersOnElement option"
  getStateIsLimited :: "world \<Rightarrow> Groupper \<Rightarrow> bool"
  findRootAndModalizer :: "world \<Rightarrow> elem \<Rightarrow> RootAndModalizer option"
  getCurrentModalizerId :: "world \<Rightarrow> Root \<Rightarrow> string option"
  getModalizerById :: "world \<Rightarrow> Root \<Rightarrow> string \<Rightarrow> Modalizer option"
  onBeforeFocusOut :: "world \<Rightarrow> Modalizer \<Rightarrow> bool"
  shouldIgnoreFocus :: "world \<Rightarrow> elem \<Rightarrow> bool"
  isElementVerticallyVisibleInContainer :: "world \<Rightarrow> elem \<Rightarrow> bool"
  matchesSelector :: "world \<Rightarrow> elem \<Rightarrow> string \<Rightarrow> bool"
  ownerDocument :: "world \<Rightarrow> elem \<Rightarrow> document option"
  body :: "world \<Rightarrow> document \<Rightarrow> elem"
  compareDocumentPosition :: "world \<Rightarrow> elem \<Rightarrow> elem \<Rightarrow> nat"
  containsNode :: "world \<Rightarrow> elem \<Rightarrow> elem \<Rightarrow> bool"
  parentElement :: "world \<Rightarrow> elem \<Rightarrow> elem option"
  getBoundingClientRect :: "world \<Rightarrow> elem \<Rightarrow> DOMRect"
  canReceiveFocus :: "world \<Rightarrow> elem \<Rightarrow> bool"
  honoursPrototypeOverride :: bool

section \<open>Native-focus interception\<close>

text \<open>\<^verbatim>\<open>replaceFocus\<close>: a function that carries \<^verbatim>\<open>__ahFocus\<close> is already set up.\<close>

definition replaceFocus :: "world \<Rightarrow> world" where
  "replaceFocus w =
     (let origFocus = protoFocus w in
      case origFocus of
        Wrapper f \<Rightarrow> w
      | Native \<Rightarrow> w\<lparr>protoFocus := Wrapper origFocus\<rparr>)"

definition restoreFocus :: "world \<Rightarrow> world" where
  "restoreFocus w =
     (case protoFocus w of
        Wrapper origFocus \<Rightarrow> w\<lparr>protoFocus := origFocus\<rparr>
      | Native \<Rightarrow> w)"

text \<open>How many interception wrappers are stacked in the prototype slot.\<close>

fun wrappers :: "focus_fn \<Rightarrow> nat" where
  "wrappers (Wrapper f) = Suc (wrappers f)"
| "wrappers Native = 0"

text \<open>Sequences of installs and restores.\<close>

datatype focus_op = Install | Restore

fun apply_op :: "focus_op \<Rightarrow> world \<Rightarrow> world" where
  "apply_op Install w = replaceFocus w"
| "apply_op Restore w = restoreFocus w"

definition run_ops :: "focus_op list \<Rightarrow> world \<Rightarrow> world" where
  "run_ops ops w = foldl (\<lambda>v p. apply_op p v) w ops"

section \<open>Host platform\<close>

datatype focus_event = FocusIn elem "elem option" | FocusOut elem "elem option"

text \<open>What the platform calls for a focus event: the listeners of the tracker, which may
  run out of fuel (\<open>None\<close>).\<close>

type_synonym handler = "focus_event \<Rightarrow> world \<Rightarrow> world option"

datatype error = Error string

text \<open>A call of the unit either throws (\<open>Inl\<close>, with the world at the throw) or returns.\<close>

type_synonym outcome = "(error \<times> world) + world"

text \<open>Modelled from the spec: the platform's focus primitive is not code of the unit. The spec
  says that calling it re-enters the focus-in and focus-out handlers synchronously, before the
  call returns, and that the focus-out of the element losing focus fires before the focus-in
  of the element gaining it. An element that cannot receive focus, or has it already, causes
  no event.\<close>

definition nativeFocus :: "handler \<Rightarrow> env \<Rightarrow> elem \<Rightarrow> world \<Rightarrow> world option" where
  "nativeFocus H env el w =
     (if \<not> canReceiveFocus env w el \<or> activeElement w = Some el then Some w
      else case activeElement w of
          None \<Rightarrow> H (FocusIn el None) (w\<lparr>activeElement := Some el\<rparr>)
        | Some old \<Rightarrow>
            (case H (FocusOut old (Some el)) (w\<lparr>activeElement := None\<rparr>) of
               None \<Rightarrow> None
             | Some w1 \<Rightarrow> H (FocusIn el (Some old)) (w1\<lparr>activeElement := Some el\<rparr>)))"

text \<open>Modelled from the spec: the platform's blur primitive, likewise; blurring the active
  element fires its focus-out with no related target.\<close>

definition nativeBlur :: "handler \<Rightarrow> env \<Rightarrow> elem \<Rightarrow> world \<Rightarrow> world option" where
  "nativeBlur H env el w =
     (if activeElement w = Some el then H (FocusOut el None) (w\<lparr>activeElement := None\<rparr>)
      else Some w)"

text \<open>Calling the function in the prototype slot on an element. The wrapper of
  \<^verbatim>\<open>replaceFocus\<close> records the receiver and delegates to the function it wraps.\<close>

primrec applyFocus :: "focus_fn \<Rightarrow> handler \<Rightarrow> env \<Rightarrow> elem \<Rightarrow> world \<Rightarrow> world option" where
  "applyFocus Native H env el w = nativeFocus H env el w"
| "applyFocus (Wrapper origFocus) H env el w =
     applyFocus origFocus H env el (w\<lparr>lastFocusedProgrammatically := Some el\<rparr>)"

text \<open>\<^verbatim>\<open>element.focus()\<close>: a host that does not dispatch through the prototype slot calls
  its own primitive.\<close>

definition elementFocus :: "handler \<Rightarrow> env \<Rightarrow> elem \<Rightarrow> world \<Rightarrow> world option" where
  "elementFocus H env el w =
     (if honoursPrototypeOverride env then applyFocus (protoFocus w) H env el w
      else nativeFocus H env el w)"

text \<open>\<^verbatim>\<open>canOverrideNativeFocus\<close> puts a probe into the prototype slot, calls \<^verbatim>\<open>focus()\<close> on a
  fresh button and puts the slot back: it answers whether the host dispatched the call
  through the slot, and leaves the world as it was.\<close>

definition canOverrideNativeFocus :: "env \<Rightarrow> world \<Rightarrow> bool" where
  "canOverrideNativeFocus env w = honoursPrototypeOverride env"

section \<open>Focus tracker\<close>

text \<open>Modelled from the spec: \<^verbatim>\<open>Subscribable.setVal\<close> is declared in Subscribable.ts, which is
  not part of the unit. The spec says of it: set the value, notify the subscribers
  synchronously, and no notification for a value that did not change.\<close>

definition superSetVal :: "elem option \<Rightarrow> FocusedElementDetails \<Rightarrow> world \<Rightarrow> world" where
  "superSetVal v details w =
     (if val w = v then w
      else w\<lparr>val := v, trace := trace w @ [Notify v details]\<rparr>)"

definition setVal :: "elem option \<Rightarrow> FocusedElementDetails \<Rightarrow> world \<Rightarrow> world" where
  "setVal v details w =
     (let w1 = superSetVal v details (w\<lparr>trace := trace w @ [SetVal v details]\<rparr>) in
      case v of
        None \<Rightarrow> w1
      | Some e \<Rightarrow> w1\<lparr>prevVal := lastVal w1, lastVal := Some e\<rparr>)"

definition focus :: "handler \<Rightarrow> env \<Rightarrow> elem \<Rightarrow> bool \<Rightarrow> bool \<Rightarrow> world \<Rightarrow> (bool \<times> world) option" where
  "focus H env element noFocusedProgrammaticallyFlag noAccessibleCheck w =
     (if \<not> isFocusable env w element noFocusedProgrammaticallyFlag False noAccessibleCheck
      then Some (False, w)
      else case elementFocus H env element (w\<lparr>lastFocusedProgrammatically := Some element\<rparr>) of
          None \<Rightarrow> None
        | Some w1 \<Rightarrow> Some (True, w1))"

definition focusDefault :: "handler \<Rightarrow> env \<Rightarrow> elem \<Rightarrow> world \<Rightarrow> (bool \<times> world) option" where
  "focusDefault H env container w =
     (case findDefault env w container of
        Some el \<Rightarrow>
          (case focus H env el False False w of
             None \<Rightarrow> None
           | Some (r, w1) \<Rightarrow> Some (True, w1))
      | None \<Rightarrow> Some (False, w))"

definition focusFirst :: "handler \<Rightarrow> env \<Rightarrow> elem \<Rightarrow> world \<Rightarrow> (bool \<times> world) option" where
  "focusFirst H env container w =
     (case findFirst env w container False True False of
        Some first \<Rightarrow>
          (case focus H env first False False w of
             None \<Rightarrow> None
           | Some (r, w1) \<Rightarrow> Some (True, w1))
      | None \<Rightarrow> Some (False, w))"

definition setAttribute :: "elem \<Rightarrow> string \<Rightarrow> string \<Rightarrow> world \<Rightarrow> world" where
  "setAttribute element name v w =
     w\<lparr>attrs := (attrs w)(element := (attrs w element)(name \<mapsto> v))\<rparr>"

definition removeAttribute :: "elem \<Rightarrow> string \<Rightarrow> world \<Rightarrow> world" where
  "removeAttribute element name w =
     w\<lparr>attrs := (attrs w)(element := (attrs w element)(name := None))\<rparr>"

definition setOrRemoveAttribute :: "elem \<Rightarrow> string \<Rightarrow> string option \<Rightarrow> world \<Rightarrow> world" where
  "setOrRemoveAttribute element name v w =
     (case v of
        None \<Rightarrow> removeAttribute element name w
      | Some s \<Rightarrow> setAttribute element name s w)"


definition DOCUMENT_POSITION_PRECEDING :: nat where
  "DOCUMENT_POSITION_PRECEDING = 2"

definition validateFocusedElement ::
  "handler \<Rightarrow> env \<Rightarrow> elem \<Rightarrow> FocusedElementDetails \<Rightarrow> world \<Rightarrow> outcome option" where
  "validateFocusedElement H env element details w =
     (let rootAndModalizer = findRootAndModalizer env w element;
          curModalizerId =
            (case rootAndModalizer of
               None \<Rightarrow> None
             | Some r \<Rightarrow> getCurrentModalizerId env w (ramRoot r));
          w1 = w\<lparr>trace := trace w @ [SetCurrentGroupper element]\<rparr>
      in case rootAndModalizer of
           None \<Rightarrow> Some (Inr w1)
         | Some r \<Rightarrow>
            (case ramModalizer r of
               None \<Rightarrow> Some (Inr w1)
             | Some eModalizer \<Rightarrow>
                 if curModalizerId = Some (userId eModalizer) then Some (Inr w1)
                 else if curModalizerId = None \<or> isFocusedProgrammatically details = Some True
                 then Some (Inr (w1\<lparr>trace := trace w1 @
                        [SetCurrentModalizerId (uid (ramRoot r)) (userId eModalizer)]\<rparr>))
                 else
                   (case ownerDocument env w1 element of
                      None \<Rightarrow> Some (Inr w1)
                    | Some doc \<Rightarrow>
                       (case findFirst env w1 (rootElement (ramRoot r)) False False False of
                          Some toFocus \<Rightarrow>
                            if and (compareDocumentPosition env w1 element toFocus)
                                 DOCUMENT_POSITION_PRECEDING \<noteq> 0
                            then
                              (case findLast env w1 (body env w1 doc) of
                                 None \<Rightarrow> Some (Inl (Error ''Something went wrong.'', w1))
                               | Some toFocus' \<Rightarrow>
                                   map_option (\<lambda>r. Inr (snd r))
                                     (focus H env toFocus' False False w1))
                            else map_option (\<lambda>r. Inr (snd r)) (focus H env toFocus False False w1)
                        | None \<Rightarrow> map_option Inr (nativeBlur H env element w1)))))"

text \<open>\<^verbatim>\<open>_setFocusedElement\<close> from the creation of the snapshot on (its last three
  statements), for the element and the details its first part has determined.\<close>

definition commitSnapshot ::
  "handler \<Rightarrow> env \<Rightarrow> elem option \<Rightarrow> FocusedElementDetails \<Rightarrow> world \<Rightarrow> outcome option" where
  "commitSnapshot H env element details w =
     (let nextVal' = \<lparr>addr = heapTop w, snapElement = element, snapDetails = details\<rparr>;
          w1 = w\<lparr>nextVal := Some nextVal', heapTop := Suc (heapTop w),
                 trace := trace w @ [NewSnapshot (heapTop w) element details]\<rparr>
      in case (case element of
                 Some e \<Rightarrow>
                   if element \<noteq> val w1 then validateFocusedElement H env e details w1
                   else Some (Inr w1)
               | None \<Rightarrow> Some (Inr w1)) of
           None \<Rightarrow> None
         | Some (Inl thrown) \<Rightarrow> Some (Inl thrown)
         | Some (Inr w2) \<Rightarrow>
             (let w3 = (if map_option addr (nextVal w2) = Some (addr nextVal')
                        then setVal element details w2 else w2)
              in Some (Inr (w3\<lparr>nextVal := None\<rparr>))))"

definition setFocusedElement ::
  "handler \<Rightarrow> env \<Rightarrow> elem option \<Rightarrow> elem option \<Rightarrow> world \<Rightarrow> outcome option" where
  "setFocusedElement H env element relatedTarget' w =
     (let details = \<lparr>relatedTarget = relatedTarget', isFocusedProgrammatically = None\<rparr> in
      case element of
        None \<Rightarrow> commitSnapshot H env element details w
      | Some e \<Rightarrow>
          (let lastResetElement' = lastResetElement w;
               w1 = w\<lparr>lastResetElement := None\<rparr>
           in if lastResetElement' = Some e \<or> shouldIgnoreFocus env w1 e then Some (Inr w1)
              else if canOverrideNativeFocusFlag w1 \<or> lastFocusedProgrammatically w1 \<noteq> None
              then commitSnapshot H env element
                     (details\<lparr>isFocusedProgrammatically :=
                        Some (Some e = lastFocusedProgrammatically w1)\<rparr>)
                     (w1\<lparr>lastFocusedProgrammatically := None\<rparr>)
              else commitSnapshot H env element details w1))"

definition onFocusIn :: "handler \<Rightarrow> env \<Rightarrow> elem \<Rightarrow> elem option \<Rightarrow> world \<Rightarrow> outcome option" where
  "onFocusIn H env target related w = setFocusedElement H env (Some target) related w"

definition onFocusOut :: "handler \<Rightarrow> env \<Rightarrow> elem option \<Rightarrow> world \<Rightarrow> outcome option" where
  "onFocusOut H env related w = setFocusedElement H env None related w"

definition onMouseDown :: "env \<Rightarrow> elem \<Rightarrow> world \<Rightarrow> world" where
  "onMouseDown env target w =
     (case findGroupper env w target of
        Some groupper \<Rightarrow> w\<lparr>trace := trace w @ [SetCurrentGroupper groupper]\<rparr>
      | None \<Rightarrow> w)"

text \<open>\<^verbatim>\<open>_init\<close>, run by the timer the constructor sets.\<close>

definition init :: "env \<Rightarrow> world \<Rightarrow> world" where
  "init env w =
     (let w1 = w\<lparr>initTimer := None\<rparr>;
          w2 = w1\<lparr>canOverrideNativeFocusFlag := canOverrideNativeFocus env w1\<rparr>;
          w3 = replaceFocus w2
      in w3\<lparr>listeners := listeners w3 @
           [\<lparr>lTarget = OnDocument, lType = ''focusin'', lHandler = HOnFocusIn, lCapture = True\<rparr>,
            \<lparr>lTarget = OnDocument, lType = ''focusout'', lHandler = HOnFocusOut, lCapture = True\<rparr>,
            \<lparr>lTarget = OnDocument, lType = ''mousedown'', lHandler = HOnMouseDown, lCapture = True\<rparr>,
            \<lparr>lTarget = OnWindow, lType = ''keydown'', lHandler = HOnKeyDown, lCapture = False\<rparr>]\<rparr>)"

section \<open>Event dispatch\<close>

definition listening :: "world \<Rightarrow> listener_target \<Rightarrow> string \<Rightarrow> handler_name \<Rightarrow> bool \<Rightarrow> bool" where
  "listening w t ty h c =
     (\<lparr>lTarget = t, lType = ty, lHandler = h, lCapture = c\<rparr> \<in> set (listeners w))"

text \<open>An exception that leaves a listener is reported by the platform and does not reach
  the code that caused the event.\<close>

definition reportException :: "outcome option \<Rightarrow> world option" where
  "reportException r =
     (case r of
        None \<Rightarrow> None
      | Some (Inl (Error m, w)) \<Rightarrow> Some (w\<lparr>trace := trace w @ [UncaughtError m]\<rparr>)
      | Some (Inr w) \<Rightarrow> Some w)"

text \<open>The platform delivering a focus event to the listeners that \<^verbatim>\<open>_init\<close> registered.
  The first argument bounds the depth of re-entrant deliveries.\<close>

primrec dispatch :: "nat \<Rightarrow> env \<Rightarrow> focus_event \<Rightarrow> world \<Rightarrow> world option" where
  "dispatch 0 env = (\<lambda>ev w. None)"
| "dispatch (Suc n) env = (\<lambda>ev w.
     case ev of
       FocusIn target related \<Rightarrow>
         if listening w OnDocument ''focusin'' HOnFocusIn True
         then reportException (onFocusIn (dispatch n env) env target related w)
         else Some w
     | FocusOut target related \<Rightarrow>
         if listening w OnDocument ''focusout'' HOnFocusOut True
         then reportException (onFocusOut (dispatch n env) env related w)
         else Some w)"

declare dispatch.simps [simp del]

definition dispatchMouseDown :: "env \<Rightarrow> elem \<Rightarrow> world \<Rightarrow> world" where
  "dispatchMouseDown env target w =
     (if listening w OnDocument ''mousedown'' HOnMouseDown True then onMouseDown env target w
      else w)"

section \<open>Keyboard navigation\<close>

definition inputSelector :: string where
  "inputSelector = ''input, textarea, *[contenteditable]''"

definition isInput :: "env \<Rightarrow> world \<Rightarrow> elem \<Rightarrow> bool" where
  "isInput env w element = matchesSelector env w element inputSelector"

text \<open>\<^verbatim>\<open>a.contains(b)\<close>, which is false for an absent \<^verbatim>\<open>b\<close>.\<close>

definition contains :: "env \<Rightarrow> world \<Rightarrow> elem \<Rightarrow> elem option \<Rightarrow> bool" where
  "contains env w a b = (case b of None \<Rightarrow> False | Some b' \<Rightarrow> containsNode env w a b')"

definition getFirstInGroupper :: "env \<Rightarrow> world \<Rightarrow> elem \<Rightarrow> bool \<Rightarrow> elem option" where
  "getFirstInGroupper env w groupperElement' ignoreGroupper =
     (if isFocusable env w groupperElement' False False False then Some groupperElement'
      else findFirst env w groupperElement' False False ignoreGroupper)"

definition getGroupper :: "env \<Rightarrow> world \<Rightarrow> elem \<Rightarrow> Groupper option" where
  "getGroupper env w element =
     (case findGroupper env w element of
        None \<Rightarrow> None
      | Some groupperElement' \<Rightarrow>
          (case getAbilityHelpersOnElement env w groupperElement' of
             None \<Rightarrow> None
           | Some ah \<Rightarrow> ahGroupper ah))"

text \<open>The loop of \<^verbatim>\<open>_findNextGroupper\<close>. Its state is the element \<open>el\<close> under the cursor and the
  variables \<open>next\<close>, \<open>lastEl\<close> and \<open>prevTop\<close>; it returns \<open>next\<close> and \<open>lastEl\<close> at the
  exit, and the traversal of the collaborator decides whether it ends.\<close>

partial_function (option) nextGroupperLoop ::
  "env \<Rightarrow> world \<Rightarrow> Keys \<Rightarrow> DOMRect \<Rightarrow> elem option \<Rightarrow> elem option \<Rightarrow> elem option \<Rightarrow> real option
     \<Rightarrow> (elem option \<times> elem option) option" where
  "nextGroupperLoop env w key fromRect el next lastEl prevTop =
     (case el of
        None \<Rightarrow> Some (next, lastEl)
      | Some e \<Rightarrow>
         (let rect = getBoundingClientRect env w e;
              step = (if key = Down \<or> key = Right then findNextGroupper env w e
                      else findPrevGroupper env w e)
          in if key = Up then
               (if rectTop rect < rectTop fromRect then
                  (case prevTop of
                     None \<Rightarrow>
                       if rectLeft rect < rectLeft fromRect
                       then Some (if next = None then Some e else next, lastEl)
                       else nextGroupperLoop env w key fromRect step (Some e) (Some e)
                              (Some (rectTop rect))
                   | Some p \<Rightarrow>
                       if rectTop rect < p then Some (next, lastEl)
                       else if rectLeft rect < rectLeft fromRect
                       then Some (if next = None then Some e else next, lastEl)
                       else nextGroupperLoop env w key fromRect step (Some e) (Some e) prevTop)
                else nextGroupperLoop env w key fromRect step next (Some e) prevTop)
             else if key = Down then
               (if rectTop rect > rectTop fromRect then
                  (case prevTop of
                     None \<Rightarrow>
                       if rectLeft rect > rectLeft fromRect
                       then Some (if next = None then Some e else next, lastEl)
                       else nextGroupperLoop env w key fromRect step (Some e) (Some e)
                              (Some (rectTop rect))
                   | Some p \<Rightarrow>
                       if rectTop rect > p then Some (next, lastEl)
                       else if rectLeft rect > rectLeft fromRect
                       then Some (if next = None then Some e else next, lastEl)
                       else nextGroupperLoop env w key fromRect step (Some e) (Some e) prevTop)
                else nextGroupperLoop env w key fromRect step next (Some e) prevTop)
             else if key = Left \<or> key = Right then Some (Some e, lastEl)
             else nextGroupperLoop env w key fromRect step next (Some e) prevTop))"

text \<open>\<^verbatim>\<open>_findNextGroupper\<close>; \<open>None\<close> is the loop not ending, \<open>Some None\<close> the result
  \<^verbatim>\<open>null\<close>.\<close>

definition findNextGroupper' ::
  "env \<Rightarrow> world \<Rightarrow> elem \<Rightarrow> Keys \<Rightarrow> GroupperNextDirection option \<Rightarrow> elem option option" where
  "findNextGroupper' env w from key direction =
     (if direction = Some Vertical \<and> (key = Left \<or> key = Right) then Some None
      else if direction = Some Horizontal \<and> (key = Up \<or> key = Down) then Some None
      else if direction = None \<or> direction = Some Both then
        (if key = Left \<or> key = Up then Some (findPrevGroupper env w from)
         else Some (findNextGroupper env w from))
      else
        (let fromRect = getBoundingClientRect env w from;
             start = (if key = Down \<or> key = Right then findNextGroupper env w from
                      else findPrevGroupper env w from)
         in case nextGroupperLoop env w key fromRect start None None None of
              None \<Rightarrow> None
            | Some (next, lastEl) \<Rightarrow>
                Some (case next of Some n \<Rightarrow> Some n | None \<Rightarrow> lastEl)))"

partial_function (option) pageUpLoop ::
  "env \<Rightarrow> world \<Rightarrow> elem option \<Rightarrow> elem option \<Rightarrow> elem option option" where
  "pageUpLoop env w ue pue =
     (case ue of
        None \<Rightarrow> Some pue
      | Some u \<Rightarrow>
          pageUpLoop env w
            (if isElementVerticallyVisibleInContainer env w u then findPrevGroupper env w u
             else None)
            (Some u))"

definition findPageUpGroupper :: "env \<Rightarrow> world \<Rightarrow> elem \<Rightarrow> elem option option" where
  "findPageUpGroupper env w from = pageUpLoop env w (findPrevGroupper env w from) None"

partial_function (option) pageDownLoop ::
  "env \<Rightarrow> world \<Rightarrow> elem option \<Rightarrow> elem option \<Rightarrow> elem option option" where
  "pageDownLoop env w de pde =
     (case de of
        None \<Rightarrow> Some pde
      | Some d \<Rightarrow>
          pageDownLoop env w
            (if isElementVerticallyVisibleInContainer env w d then findNextGroupper env w d
             else None)
            (Some d))"

definition findPageDownGroupper :: "env \<Rightarrow> world \<Rightarrow> elem \<Rightarrow> elem option option" where
  "findPageDownGroupper env w from = pageDownLoop env w (findNextGroupper env w from) None"

definition emit :: "call list \<Rightarrow> world \<Rightarrow> world" where
  "emit cs w = w\<lparr>trace := trace w @ cs\<rparr>"

text \<open>The grouper override of the Tab branch of \<^verbatim>\<open>_onKeyDown\<close> (from
  \<^verbatim>\<open>const groupper = this._getGroupper(curElement)\<close> to the end of that \<^verbatim>\<open>if\<close>): the
  candidate \<open>next\<close> after it.\<close>

definition tabGroupperOverride ::
  "env \<Rightarrow> world \<Rightarrow> bool \<Rightarrow> elem \<Rightarrow> elem option \<Rightarrow> elem option" where
  "tabGroupperOverride env w shiftKey curElement next =
     (case getGroupper env w curElement of
        None \<Rightarrow> next
      | Some groupper \<Rightarrow>
         (let groupperElement' = groupperElement groupper;
              first = getFirstInGroupper env w groupperElement' False
          in case first of
               Some f \<Rightarrow>
                 if curElement \<noteq> f
                    \<and> basicIsLimited groupper = Some LimitedTrapFocus
                    \<and> (next = None \<or> next = first \<or> \<not> contains env w groupperElement' next)
                 then (if shiftKey then findLast env w groupperElement'
                       else findNext env w f (Some groupperElement'))
                 else if curElement = f then
                   (case parentElement env w groupperElement' of
                      None \<Rightarrow> next
                    | Some parent \<Rightarrow>
                       (case getGroupper env w parent of
                          None \<Rightarrow> next
                        | Some parentGroupper \<Rightarrow>
                            if \<not> contains env w (groupperElement parentGroupper) next
                               \<and> basicIsLimited parentGroupper = Some LimitedTrapFocus
                            then Some curElement else next))
                 else next
             | None \<Rightarrow> next))"

text \<open>A string is truthy when it is present and not empty.\<close>

definition truthy :: "string option \<Rightarrow> bool" where
  "truthy s = (case s of None \<Rightarrow> False | Some x \<Rightarrow> x \<noteq> [])"

text \<open>The Tab branch of \<^verbatim>\<open>_onKeyDown\<close>.\<close>

definition onKeyDownTab :: "env \<Rightarrow> bool \<Rightarrow> elem \<Rightarrow> world \<Rightarrow> world" where
  "onKeyDownTab env shiftKey curElement0 w =
     (let rootAndModalizer0 = findRootAndModalizer env w curElement0 in
      if rootAndModalizer0 = None \<and> \<not> isInCurrentGroupper env w curElement0 then w
      else
       (let (rootAndModalizer, curElement) =
              (case rootAndModalizer0 of
                 None \<Rightarrow> (None, curElement0)
               | Some r \<Rightarrow>
                  (case ramModalizer r of
                     None \<Rightarrow> (Some r, curElement0)
                   | Some m \<Rightarrow>
                      (case getCurrentModalizerId env w (ramRoot r) of
                         None \<Rightarrow> (Some r, curElement0)
                       | Some curModalizerId \<Rightarrow>
                           if curModalizerId \<noteq> [] \<and> curModalizerId \<noteq> userId m then
                             (case getModalizerById env w (ramRoot r) curModalizerId of
                                None \<Rightarrow> (Some (r\<lparr>ramModalizer := None\<rparr>), curElement0)
                              | Some m' \<Rightarrow>
                                  (Some (r\<lparr>ramModalizer := Some m'\<rparr>), modalizerElement m'))
                           else (Some r, curElement0))));
            next0 = (if shiftKey then findPrev env w curElement
                     else findNext env w curElement None);
            next = tabGroupperOverride env w shiftKey curElement next0;
            leaving = (\<lambda>r.
              case next of
                 None \<Rightarrow> True
               | Some n \<Rightarrow>
                  (case findRootAndModalizer env w n of
                     None \<Rightarrow> True
                   | Some nml \<Rightarrow>
                      uid (ramRoot r) \<noteq> uid (ramRoot nml)
                      \<or> (case ramModalizer nml of
                            None \<Rightarrow> True
                          | Some nm \<Rightarrow>
                              getCurrentModalizerId env w (ramRoot nml) \<noteq> Some (userId nm))));
            finish = (\<lambda>v.
              case next of
                Some n \<Rightarrow> emit [PreventDefault, CallOriginalFocusOnly n] v
              | None \<Rightarrow>
                 (case rootAndModalizer of
                    Some r \<Rightarrow> emit [MoveOutWithDefaultAction (uid (ramRoot r)) shiftKey] v
                  | None \<Rightarrow> v))
        in case rootAndModalizer of
             None \<Rightarrow> finish w
           | Some r \<Rightarrow>
              (case ramModalizer r of
                 None \<Rightarrow> finish w
               | Some m \<Rightarrow>
                   if leaving r then
                     (let w1 = emit [OnBeforeFocusOut (userId m)] w in
                      if onBeforeFocusOut env w m then emit [PreventDefault] w1
                      else finish w1)
                   else finish w)))"

text \<open>The other branch of \<^verbatim>\<open>_onKeyDown\<close>: the keys handled inside a grouper. The \<^verbatim>\<open>switch\<close>
  yields \<open>next\<close>, \<open>shouldStopPropagation\<close> and the world after the calls it made.\<close>

definition groupperSwitch ::
  "env \<Rightarrow> Keys \<Rightarrow> elem \<Rightarrow> Groupper \<Rightarrow> world \<Rightarrow> (elem option \<times> bool \<times> world) option" where
  "groupperSwitch env keyCode curElement groupper w =
     (let groupperElement' = groupperElement groupper in
      if keyCode = Enter then
        (if getStateIsLimited env w groupper
            \<and> Some curElement = getFirstInGroupper env w groupperElement' True
         then
           (let w1 = emit [SetUnlimited groupperElement' True] w;
                next = findNext env w1 curElement None;
                next' = (if \<not> contains env w1 groupperElement' next then None else next)
            in Some (next', next' \<noteq> None, w1))
         else Some (None, False, w))
      else if keyCode = Esc then
        (let parentGroupper =
               (if getStateIsLimited env w groupper then
                  (case parentElement env w groupperElement' of
                     None \<Rightarrow> None
                   | Some parent \<Rightarrow> getGroupper env w parent)
                else None);
             groupper' = (case parentGroupper of None \<Rightarrow> groupper | Some pg \<Rightarrow> pg)
         in if \<not> getStateIsLimited env w groupper'
            then Some (Some (groupperElement groupper'), True,
                   emit [SetUnlimited (groupperElement groupper') False] w)
            else Some (None, True, w))
      else if keyCode = Down \<or> keyCode = Right \<or> keyCode = Up \<or> keyCode = Left then
        (case findNextGroupper' env w groupperElement' keyCode (nextDirection groupper) of
           None \<Rightarrow> None
         | Some next \<Rightarrow> Some (next, True, w))
      else if keyCode = PageDown then
        (case findPageDownGroupper env w groupperElement' of
           None \<Rightarrow> None
         | Some None \<Rightarrow> Some (None, True, w)
         | Some (Some next) \<Rightarrow> Some (Some next, True, emit [ScrollIntoView next True] w))
      else if keyCode = PageUp then
        (case findPageUpGroupper env w groupperElement' of
           None \<Rightarrow> None
         | Some None \<Rightarrow> Some (None, True, w)
         | Some (Some next) \<Rightarrow> Some (Some next, True, emit [ScrollIntoView next False] w))
      else if keyCode = Home then
        (if parentElement env w groupperElement' \<noteq> None
         then Some (findFirstGroupper env w groupperElement', True, w)
         else Some (None, True, w))
      else if keyCode = End then
        (if parentElement env w groupperElement' \<noteq> None
         then Some (findLastGroupper env w groupperElement', True, w)
         else Some (None, True, w))
      else Some (None, True, w))"

definition onKeyDownGroupper :: "env \<Rightarrow> Keys \<Rightarrow> elem \<Rightarrow> world \<Rightarrow> world option" where
  "onKeyDownGroupper env keyCode curElement w =
     (if (keyCode = Left \<or> keyCode = Right) \<and> isInput env w curElement then Some w
      else case getGroupper env w curElement of
          None \<Rightarrow> Some w
        | Some groupper \<Rightarrow>
           (case groupperSwitch env keyCode curElement groupper w of
              None \<Rightarrow> None
            | Some (next, shouldStopPropagation, w1) \<Rightarrow>
               (let w2 = (if shouldStopPropagation
                          then emit [PreventDefault, StopImmediatePropagation] w1 else w1)
                in case next of
                     None \<Rightarrow> Some w2
                   | Some n \<Rightarrow>
                      (case (if \<not> isFocusable env w2 n False False False
                             then findFirst env w2 n False False True else Some n) of
                         None \<Rightarrow> Some w2
                       | Some n' \<Rightarrow>
                           Some (emit [SetCurrentGroupper n', SetKeyboardNavigation True,
                                       CallOriginalFocusOnly n'] w2)))))"

text \<open>\<^verbatim>\<open>_onKeyDown\<close>. \<^verbatim>\<open>callOriginalFocusOnly\<close> is the last call on each path; it is
  recorded in the trace, and the focus events it causes reach the tracker as events of
  their own.\<close>

definition onKeyDown :: "env \<Rightarrow> Keys \<Rightarrow> bool \<Rightarrow> world \<Rightarrow> world option" where
  "onKeyDown env keyCode shiftKey w =
     (case val w of
        None \<Rightarrow> Some w
      | Some curElement \<Rightarrow>
          if ownerDocument env w curElement = None then Some w
          else (case keyCode of
                  OtherKey k \<Rightarrow> Some w
                | Tab \<Rightarrow> Some (onKeyDownTab env shiftKey curElement w)
                | _ \<Rightarrow> onKeyDownGroupper env keyCode curElement w))"

section \<open>Concrete states\<close>

text \<open>The tracker as its constructor leaves it, on a page where no element has focus.\<close>

definition newTracker :: world where
  "newTracker = \<lparr>lastFocusedProgrammatically = None, lastResetElement = None,
     canOverrideNativeFocusFlag = False, initTimer = Some 1, nextVal = None, val = None,
     lastVal = None, prevVal = None, heapTop = 0, attrs = (\<lambda>e. Map.empty),
     activeElement = None, protoFocus = Native, listeners = [], trace = []\<rparr>"

text \<open>A page with nothing focusable, no grouper and no modalizer.\<close>

definition quietEnv :: env where
  "quietEnv = \<lparr>isFocusable = (\<lambda>w e a b c. False), isVisible = (\<lambda>w e. False),
     findFirst = (\<lambda>w e a b c. None), findLast = (\<lambda>w e. None), findNext = (\<lambda>w e c. None),
     findPrev = (\<lambda>w e. None), findDefault = (\<lambda>w e. None), findGroupper = (\<lambda>w e. None),
     findFirstGroupper = (\<lambda>w e. None), findLastGroupper = (\<lambda>w e. None),
     findNextGroupper = (\<lambda>w e. None), findPrevGroupper = (\<lambda>w e. None),
     isInCurrentGroupper = (\<lambda>w e. False), getAbilityHelpersOnElement = (\<lambda>w e. None),
     getStateIsLimited = (\<lambda>w g. False), findRootAndModalizer = (\<lambda>w e. None),
     getCurrentModalizerId = (\<lambda>w r. None), getModalizerById = (\<lambda>w r i. None),
     onBeforeFocusOut = (\<lambda>w m. False), shouldIgnoreFocus = (\<lambda>w e. False),
     isElementVerticallyVisibleInContainer = (\<lambda>w e. False),
     matchesSelector = (\<lambda>w e s. False), ownerDocument = (\<lambda>w e. Some 0),
     body = (\<lambda>w d. 0), compareDocumentPosition = (\<lambda>w a b. 0),
     containsNode = (\<lambda>w a b. False), parentElement = (\<lambda>w e. None),
     getBoundingClientRect = (\<lambda>w e. \<lparr>rectTop = 0, rectLeft = 0\<rparr>),
     canReceiveFocus = (\<lambda>w e. False), honoursPrototypeOverride = True\<rparr>"

text \<open>A page where element 5 lies in the grouper of element 4.\<close>

definition groupperEnv :: env where
  "groupperEnv = quietEnv\<lparr>findGroupper := (\<lambda>w e. if e = 5 then Some 4 else None)\<rparr>"

section \<open>Descriptions of the sibling walks\<close>

text \<open>\<open>visited nxt vis cur xs\<close>: starting at \<open>cur\<close>, a walk that goes on from an element
  only when \<open>vis\<close> holds of it visits exactly the elements \<open>xs\<close>, in this order, and ends.\<close>

fun visited :: "(elem \<Rightarrow> elem option) \<Rightarrow> (elem \<Rightarrow> bool) \<Rightarrow> elem option \<Rightarrow> elem list \<Rightarrow> bool" where
  "visited nxt vis cur [] = (cur = None)"
| "visited nxt vis cur (x # xs) =
     (cur = Some x \<and> (if vis x then visited nxt vis (nxt x) xs else xs = []))"

definition lastVisited :: "elem list \<Rightarrow> elem option" where
  "lastVisited xs = (if xs = [] then None else Some (last xs))"

text \<open>The reading of the specification's sentence on PageDown and PageUp: of the sibling
  groupers \<open>xs\<close> in walking order, the last one of the leading run of vertically visible
  ones.\<close>

definition visibleRunEdge :: "(elem \<Rightarrow> bool) \<Rightarrow> elem list \<Rightarrow> elem option" where
  "visibleRunEdge vis xs = lastVisited (takeWhile vis xs)"

text \<open>Sibling groupers 2, 3 and 4 follow grouper 1, which holds the focused element 1;
  grouper 3 is the first one that is not vertically visible.\<close>

definition pageEnv :: env where
  "pageEnv = quietEnv\<lparr>
     findGroupper := (\<lambda>w e. if e \<in> {1, 2, 3, 4} then Some e else None),
     getAbilityHelpersOnElement := (\<lambda>w e. Some \<lparr>ahGroupper =
        Some \<lparr>groupperElement = e, basicIsLimited = None, nextDirection = None\<rparr>\<rparr>),
     findNextGroupper := (\<lambda>w e. if e \<in> {1, 2, 3} then Some (Suc e) else None),
     findPrevGroupper := (\<lambda>w e. if e \<in> {2, 3, 4} then Some (e - 1) else None),
     isElementVerticallyVisibleInContainer := (\<lambda>w e. e \<in> {1, 2}),
     isFocusable := (\<lambda>w e a b c. True)\<rparr>"

definition pageWorld :: world where
  "pageWorld = (init pageEnv newTracker)\<lparr>val := Some 1, activeElement := Some 1\<rparr>"

section \<open>Description of the row walk of the arrow keys\<close>

text \<open>Of the sibling groupers \<open>xs\<close> in walking order, with rectangles \<open>R\<close>, the candidates
  are those whose top lies strictly beyond the top of the source rectangle. If the first
  candidate \<open>c\<close> also lies strictly beyond the source's left, it is the target. Otherwise
  the target is the last one of the leading candidates whose left is not beyond the
  source's left, taken from the leading candidates whose top is not beyond the top of
  \<open>c\<close>. Without a candidate the target is the last sibling.\<close>

definition rowTarget ::
  "(real \<Rightarrow> real \<Rightarrow> bool) \<Rightarrow> DOMRect \<Rightarrow> (elem \<Rightarrow> DOMRect) \<Rightarrow> elem list \<Rightarrow> elem option" where
  "rowTarget beyond fromRect R xs =
     (case filter (\<lambda>x. beyond (rectTop (R x)) (rectTop fromRect)) xs of
        [] \<Rightarrow> lastVisited xs
      | c # cs \<Rightarrow>
          if beyond (rectLeft (R c)) (rectLeft fromRect) then Some c
          else Some (last (c # takeWhile (\<lambda>x. \<not> beyond (rectLeft (R x)) (rectLeft fromRect))
                 (takeWhile (\<lambda>x. \<not> beyond (rectTop (R x)) (rectTop (R c))) cs))))"

text \<open>Three sibling groupers 1, 2 and 3, in this order, at (top 0, left 0), (top 0, left 50)
  and (top 20, left 0), each focusable, with the declared direction \<open>d\<close>; element 1 has
  the focus.\<close>

definition gridEnv :: "GroupperNextDirection option \<Rightarrow> env" where
  "gridEnv d = quietEnv\<lparr>
     findGroupper := (\<lambda>w e. if e \<in> {1, 2, 3} then Some e else None),
     getAbilityHelpersOnElement := (\<lambda>w e. Some \<lparr>ahGroupper =
        Some \<lparr>groupperElement = e, basicIsLimited = None, nextDirection = d\<rparr>\<rparr>),
     findNextGroupper := (\<lambda>w e. if e \<in> {1, 2} then Some (Suc e) else None),
     findPrevGroupper := (\<lambda>w e. if e \<in> {2, 3} then Some (e - 1) else None),
     getBoundingClientRect := (\<lambda>w e.
        if e = 2 then \<lparr>rectTop = 0, rectLeft = 50\<rparr>
        else if e = 3 then \<lparr>rectTop = 20, rectLeft = 0\<rparr>
        else \<lparr>rectTop = 0, rectLeft = 0\<rparr>),
     isFocusable := (\<lambda>w e a b c. True)\<rparr>"

definition gridWorld :: "GroupperNextDirection option \<Rightarrow> world" where
  "gridWorld d = (init (gridEnv d) newTracker)\<lparr>val := Some 1, activeElement := Some 1\<rparr>"

text \<open>A grouper 20 with the focus limit LimitedTrapFocus whose focusable elements are
  A = 21, B = 22 and C = 23, in this order; the container 20 is not focusable itself, so 21
  is the first focusable element of the grouper and 23 the last. Element 10 precedes the
  grouper in the tab order and element 30 follows it. No modalizer is involved, and the
  focused element lies in the current grouper.\<close>

definition trapEnv :: env where
  "trapEnv = quietEnv\<lparr>
     findGroupper := (\<lambda>w e. if e \<in> {20, 21, 22, 23} then Some 20 else None),
     getAbilityHelpersOnElement := (\<lambda>w e. if e = 20 then Some \<lparr>ahGroupper =
        Some \<lparr>groupperElement = 20, basicIsLimited = Some LimitedTrapFocus,
              nextDirection = None\<rparr>\<rparr> else None),
     isFocusable := (\<lambda>w e a b c. e \<in> {10, 21, 22, 23, 30}),
     findFirst := (\<lambda>w e a b c. if e = 20 then Some 21 else None),
     findLast := (\<lambda>w e. if e = 20 then Some 23 else None),
     findNext := (\<lambda>w e c. if e = 10 then Some 21 else if e \<in> {21, 22} then Some (Suc e)
                   else if e = 23 \<and> c \<noteq> Some 20 then Some 30 else None),
     findPrev := (\<lambda>w e. if e = 30 then Some 23 else if e \<in> {22, 23} then Some (e - 1)
                   else if e = 21 then Some 10 else None),
     containsNode := (\<lambda>w a b. a = 20 \<and> b \<in> {21, 22, 23}),
     parentElement := (\<lambda>w e. if e = 20 then Some 5 else None),
     isInCurrentGroupper := (\<lambda>w e. True)\<rparr>"

definition trapWorld :: "elem \<Rightarrow> world" where
  "trapWorld cur = (init trapEnv newTracker)\<lparr>val := Some cur, activeElement := Some cur\<rparr>"

text \<open>A root (element 40) with the modalizers m1 (element 41) and m2 (element 42); m1 is the
  current one. Elements 45 and 46 lie in m1, elements 50 and 55 in m2, and the document
  order is the order of the numbers. Element 1 is the body of the document 0. The answers
  of the focusable-query collaborator for the first focusable element of the root and for
  the last one of the body are parameters.\<close>

definition modalRoot :: Root where
  "modalRoot = \<lparr>uid = ''root'', rootElement = 40\<rparr>"

definition modalEnv :: "elem option \<Rightarrow> elem option \<Rightarrow> env" where
  "modalEnv first' last' = quietEnv\<lparr>
     findRootAndModalizer := (\<lambda>w e.
        if e \<in> {50, 55} then Some \<lparr>ramRoot = modalRoot,
             ramModalizer = Some \<lparr>userId = ''m2'', modalizerElement = 42\<rparr>\<rparr>
        else if e \<in> {45, 46} then Some \<lparr>ramRoot = modalRoot,
             ramModalizer = Some \<lparr>userId = ''m1'', modalizerElement = 41\<rparr>\<rparr>
        else None),
     getCurrentModalizerId := (\<lambda>w r. Some ''m1''),
     compareDocumentPosition := (\<lambda>w a b. if b < a then 2 else if a < b then 4 else 0),
     body := (\<lambda>w d. 1),
     findFirst := (\<lambda>w e a b c. if e = 40 then first' else None),
     findLast := (\<lambda>w e. if e = 1 then last' else None),
     isFocusable := (\<lambda>w e a b c. e \<in> {45, 46, 50, 55}),
     canReceiveFocus := (\<lambda>w e. e \<in> {45, 46, 50, 55})\<rparr>"

text \<open>The tracker after \<^verbatim>\<open>_init\<close>, at the moment the platform has moved the focus from
  element 45 to element 50 and has delivered the focus-out of 45.\<close>

definition modalWorld :: "elem option \<Rightarrow> elem option \<Rightarrow> world" where
  "modalWorld first' last' =
     (init (modalEnv first' last') newTracker)\<lparr>activeElement := Some 50, lastVal := Some 45\<rparr>"

section \<open>Properties of traces\<close>

text \<open>\<open>never_stale cur cs\<close>: in the trace \<open>cs\<close>, which starts when \<open>cur\<close> is the content of
  the snapshot created last, every call of \<^verbatim>\<open>setVal\<close> passes the content of the snapshot
  created last before it.\<close>

fun never_stale :: "(elem option \<times> FocusedElementDetails) option \<Rightarrow> call list \<Rightarrow> bool" where
  "never_stale cur [] = True"
| "never_stale cur (NewSnapshot a v d # cs) = never_stale (Some (v, d)) cs"
| "never_stale cur (SetVal v d # cs) = (cur = Some (v, d) \<and> never_stale cur cs)"
| "never_stale cur (c # cs) = never_stale cur cs"

fun is_snapshot :: "call \<Rightarrow> bool" where
  "is_snapshot (NewSnapshot a v d) = True"
| "is_snapshot c = False"

fun is_setVal :: "call \<Rightarrow> bool" where
  "is_setVal (SetVal v d) = True"
| "is_setVal c = False"

text \<open>The part of the world that the identity check of \<^verbatim>\<open>_setFocusedElement\<close> depends on:
  the allocation counter, the trace and the address held in \<^verbatim>\<open>_nextVal\<close>.\<close>

definition core :: "world \<Rightarrow> nat \<times> call list \<times> nat option" where
  "core w = (heapTop w, trace w, map_option addr (nextVal w))"

text \<open>\<open>rok c c'\<close>: from \<open>c\<close> to \<open>c'\<close> the trace grew by calls among which no stale snapshot is
  published; if a snapshot was created on the way, \<^verbatim>\<open>_nextVal\<close> holds nothing or an object
  created on the way, and otherwise it is untouched.\<close>

definition rok :: "nat \<times> call list \<times> nat option \<Rightarrow> nat \<times> call list \<times> nat option \<Rightarrow> bool" where
  "rok c c' =
     (case c of (h, t, nv) \<Rightarrow> case c' of (h', t', nv') \<Rightarrow>
        h \<le> h' \<and> (\<exists>ts. t' = t @ ts \<and> (\<forall>cur. never_stale cur ts)
           \<and> (if list_ex is_snapshot ts then (\<forall>a. nv' = Some a \<longrightarrow> h \<le> a) else nv' = nv)))"

definition well_behaved :: "handler \<Rightarrow> bool" where
  "well_behaved H = (\<forall>ev w w'. H ev w = Some w' \<longrightarrow> rok (core w) (core w'))"

fun world_of :: "outcome \<Rightarrow> world" where
  "world_of (Inl (x, w)) = w"
| "world_of (Inr w) = w"

text \<open>The values passed to \<^verbatim>\<open>setVal\<close> in a trace, in order.\<close>

fun published :: "call list \<Rightarrow> elem option list" where
  "published [] = []"
| "published (SetVal v d # cs) = v # published cs"
| "published (c # cs) = published cs"

text \<open>\<open>frame w w'\<close>: the page and the installation are the same in both worlds.\<close>

definition frame :: "world \<Rightarrow> world \<Rightarrow> bool" where
  "frame w w' =
     (attrs w' = attrs w \<and> listeners w' = listeners w \<and> protoFocus w' = protoFocus w
      \<and> canOverrideNativeFocusFlag w' = canOverrideNativeFocusFlag w
      \<and> activeElement w' = activeElement w)"

text \<open>\<open>page w w'\<close>: as \<open>frame\<close>, but the focus may have moved.\<close>

definition page :: "world \<Rightarrow> world \<Rightarrow> bool" where
  "page w w' =
     (attrs w' = attrs w \<and> listeners w' = listeners w \<and> protoFocus w' = protoFocus w
      \<and> canOverrideNativeFocusFlag w' = canOverrideNativeFocusFlag w)"





section \<open>Theorems\<close>

subsection \<open>Interception\<close>

lemma wrappers_replaceFocus:
  "wrappers (protoFocus w) \<le> 1 \<Longrightarrow> wrappers (protoFocus (replaceFocus w)) = 1"
  by (cases "protoFocus w") (auto simp: replaceFocus_def)

lemma wrappers_restoreFocus:
  "wrappers (protoFocus w) \<le> 1 \<Longrightarrow> wrappers (protoFocus (restoreFocus w)) = 0"
  by (cases "protoFocus w") (auto simp: restoreFocus_def)

lemma wrappers_run_ops:
  "wrappers (protoFocus w) \<le> 1 \<Longrightarrow> wrappers (protoFocus (run_ops ops w)) \<le> 1"
proof (induction ops arbitrary: w)
  case Nil
  then show ?case by (simp add: run_ops_def)
next
  case (Cons p ops)
  have "wrappers (protoFocus (apply_op p w)) \<le> 1"
    using Cons.prems wrappers_replaceFocus [of w] wrappers_restoreFocus [of w]
    by (cases p) simp_all
  from Cons.IH [OF this] show ?case by (simp add: run_ops_def)
qed

lemma replaceFocus_twice: "replaceFocus (replaceFocus w) = replaceFocus w"
  by (cases "protoFocus w") (simp_all add: replaceFocus_def)

lemma restoreFocus_twice:
  "wrappers (protoFocus w) \<le> 1 \<Longrightarrow> restoreFocus (restoreFocus w) = restoreFocus w"
proof (cases "protoFocus w")
  case (Wrapper f)
  assume "wrappers (protoFocus w) \<le> 1"
  with Wrapper have "wrappers f = 0" by simp
  with Wrapper show ?thesis by (cases f) (simp_all add: restoreFocus_def)
qed (simp_all add: restoreFocus_def)

text \<open>
  C6. Installing the interception twice is the same as installing it once and leaves exactly
  one wrapper in the prototype slot; restoring twice is the same as restoring once, and after
  a restore no wrapper is left. This holds in every state that installs and restores reach
  from a slot holding an untagged function.
\<close>

theorem install_restore_idempotent:
  assumes "wrappers (protoFocus w0) = 0" and "w = run_ops ops w0"
  shows "replaceFocus (replaceFocus w) = replaceFocus w
    \<and> wrappers (protoFocus (replaceFocus (replaceFocus w))) = 1
    \<and> restoreFocus (restoreFocus w) = restoreFocus w
    \<and> wrappers (protoFocus (restoreFocus (restoreFocus w))) = 0
    \<and> protoFocus (restoreFocus (replaceFocus (replaceFocus w))) = protoFocus (restoreFocus w)"
proof -
  have inv: "wrappers (protoFocus w) \<le> 1"
    using assms wrappers_run_ops [of w0 ops] by simp
  have last: "protoFocus (restoreFocus (replaceFocus w)) = protoFocus (restoreFocus w)"
    by (cases "protoFocus w") (simp_all add: restoreFocus_def replaceFocus_def)
  show ?thesis
    using inv last
    by (simp add: replaceFocus_twice restoreFocus_twice wrappers_replaceFocus
        wrappers_restoreFocus)
qed

theorem install_restore_idempotent_witness:
  "wrappers (protoFocus newTracker) = 0
   \<and> replaceFocus (replaceFocus (run_ops [Install, Restore, Install] newTracker))
       = replaceFocus (run_ops [Install, Restore, Install] newTracker)
   \<and> wrappers (protoFocus (replaceFocus (replaceFocus
         (run_ops [Install, Restore, Install] newTracker)))) = 1
   \<and> restoreFocus (restoreFocus (run_ops [Install, Restore, Install] newTracker))
       = restoreFocus (run_ops [Install, Restore, Install] newTracker)"
proof -
  have h: "wrappers (protoFocus newTracker) = 0" by (simp add: newTracker_def)
  show ?thesis
    using h install_restore_idempotent [OF h refl, of "[Install, Restore, Install]"] by blast
qed

subsection \<open>Mouse input\<close>

text \<open>
  C10. \<^verbatim>\<open>_init\<close> registers \<^verbatim>\<open>_onMouseDown\<close> as a capturing listener of mousedown on the
  document. When that listener is registered and the target of a mousedown lies in a
  grouper, the only effect of the event is the call \<^verbatim>\<open>setCurrentGroupper\<close> with that
  grouper: the published value, the markers and everything else stay as they were. A
  target outside every grouper has no effect.
\<close>

theorem mousedown_sets_current_groupper:
  "listening (init env w0) OnDocument ''mousedown'' HOnMouseDown True
   \<and> (listening w OnDocument ''mousedown'' HOnMouseDown True \<longrightarrow>
        (\<forall>g. findGroupper env w target = Some g \<longrightarrow>
           dispatchMouseDown env target w = w\<lparr>trace := trace w @ [SetCurrentGroupper g]\<rparr>)
        \<and> (findGroupper env w target = None \<longrightarrow> dispatchMouseDown env target w = w))"
  by (simp add: listening_def init_def dispatchMouseDown_def onMouseDown_def Let_def)

theorem mousedown_sets_current_groupper_witness:
  "listening (init groupperEnv newTracker) OnDocument ''mousedown'' HOnMouseDown True
   \<and> findGroupper groupperEnv (init groupperEnv newTracker) 5 = Some 4
   \<and> dispatchMouseDown groupperEnv 5 (init groupperEnv newTracker)
       = (init groupperEnv newTracker)\<lparr>trace := [SetCurrentGroupper 4]\<rparr>
   \<and> val (dispatchMouseDown groupperEnv 5 (init groupperEnv newTracker)) = None"
proof -
  have l: "listening (init groupperEnv newTracker) OnDocument ''mousedown'' HOnMouseDown True"
    by (simp add: listening_def init_def Let_def)
  have g: "findGroupper groupperEnv (init groupperEnv newTracker) 5 = Some 4"
    by (simp add: groupperEnv_def)
  have t: "trace (init groupperEnv newTracker) = []"
    by (simp add: init_def Let_def replaceFocus_def newTracker_def)
  have v: "val (init groupperEnv newTracker) = None"
    by (simp add: init_def Let_def replaceFocus_def newTracker_def)
  from mousedown_sets_current_groupper
         [of groupperEnv newTracker "init groupperEnv newTracker" 5] l g
  have "dispatchMouseDown groupperEnv 5 (init groupperEnv newTracker)
          = (init groupperEnv newTracker)
              \<lparr>trace := trace (init groupperEnv newTracker) @ [SetCurrentGroupper 4]\<rparr>"
    by blast
  with l g t v show ?thesis by simp
qed

subsection \<open>PageDown and PageUp\<close>

lemma pageDownLoop_visited:
  "visited (findNextGroupper env w) (isElementVerticallyVisibleInContainer env w) de xs
   \<Longrightarrow> pageDownLoop env w de pde = Some (if xs = [] then pde else lastVisited xs)"
proof (induction xs arbitrary: de pde)
  case Nil
  then show ?case by (subst pageDownLoop.simps) simp
next
  case (Cons x xs)
  show ?case
  proof (cases "isElementVerticallyVisibleInContainer env w x")
    case True
    with Cons.prems have "visited (findNextGroupper env w)
        (isElementVerticallyVisibleInContainer env w) (findNextGroupper env w x) xs"
      and de: "de = Some x" by simp_all
    from Cons.IH [OF this(1), of "Some x"] True de show ?thesis
      by (subst pageDownLoop.simps) (simp add: lastVisited_def)
  next
    case False
    with Cons.prems have "xs = []" and de: "de = Some x" by simp_all
    with False show ?thesis
      by (subst pageDownLoop.simps, simp, subst pageDownLoop.simps)
         (simp add: lastVisited_def)
  qed
qed

lemma pageUpLoop_visited:
  "visited (findPrevGroupper env w) (isElementVerticallyVisibleInContainer env w) ue xs
   \<Longrightarrow> pageUpLoop env w ue pue = Some (if xs = [] then pue else lastVisited xs)"
proof (induction xs arbitrary: ue pue)
  case Nil
  then show ?case by (subst pageUpLoop.simps) simp
next
  case (Cons x xs)
  show ?case
  proof (cases "isElementVerticallyVisibleInContainer env w x")
    case True
    with Cons.prems have "visited (findPrevGroupper env w)
        (isElementVerticallyVisibleInContainer env w) (findPrevGroupper env w x) xs"
      and ue: "ue = Some x" by simp_all
    from Cons.IH [OF this(1), of "Some x"] True ue show ?thesis
      by (subst pageUpLoop.simps) (simp add: lastVisited_def)
  next
    case False
    with Cons.prems have "xs = []" and ue: "ue = Some x" by simp_all
    with False show ?thesis
      by (subst pageUpLoop.simps, simp, subst pageUpLoop.simps)
         (simp add: lastVisited_def)
  qed
qed

lemma visited_last:
  "visited nxt vis cur xs \<Longrightarrow> xs \<noteq> [] \<Longrightarrow> \<not> vis (last xs) \<or> nxt (last xs) = None"
proof (induction xs arbitrary: cur)
  case Nil
  then show ?case by simp
next
  case (Cons x xs)
  show ?case
  proof (cases xs)
    case Nil
    with Cons.prems show ?thesis by (auto split: if_splits)
  next
    case (Cons y ys)
    with Cons.prems Cons.IH [of "nxt x"] show ?thesis by (auto split: if_splits)
  qed
qed

lemma findPageDownGroupper_visited:
  "visited (findNextGroupper env w) (isElementVerticallyVisibleInContainer env w)
     (findNextGroupper env w from) xs
   \<Longrightarrow> findPageDownGroupper env w from = Some (lastVisited xs)"
  using pageDownLoop_visited [of env w "findNextGroupper env w from" xs None]
  by (simp add: findPageDownGroupper_def lastVisited_def)

lemma findPageUpGroupper_visited:
  "visited (findPrevGroupper env w) (isElementVerticallyVisibleInContainer env w)
     (findPrevGroupper env w from) xs
   \<Longrightarrow> findPageUpGroupper env w from = Some (lastVisited xs)"
  using pageUpLoop_visited [of env w "findPrevGroupper env w from" xs None]
  by (simp add: findPageUpGroupper_def lastVisited_def)


lemma onKeyDown_page:
  assumes "val w = Some cur" and "ownerDocument env w cur \<noteq> None"
    and "getGroupper env w cur = Some g"
    and "(if down then findPageDownGroupper env w (groupperElement g)
          else findPageUpGroupper env w (groupperElement g)) = Some target"
  shows "\<exists>w'. onKeyDown env (if down then PageDown else PageUp) shiftKey w = Some w'
     \<and> (case target of
           None \<Rightarrow> trace w' = trace w @ [PreventDefault, StopImmediatePropagation]
         | Some t \<Rightarrow> (\<exists>rest. trace w' = trace w @
               [ScrollIntoView t down, PreventDefault, StopImmediatePropagation] @ rest))"
proof (cases target)
  case None
  with assms show ?thesis
    by (cases down)
       (auto simp: onKeyDown_def onKeyDownGroupper_def groupperSwitch_def emit_def Let_def)
next
  case (Some t)
  with assms show ?thesis
    by (cases down)
       (auto simp: onKeyDown_def onKeyDownGroupper_def groupperSwitch_def emit_def Let_def
             split: option.splits)
qed

text \<open>
  C9 (as amended). On PageDown (PageUp) inside a grouper the handler walks the next
  (previous) sibling groupers and moves on from a grouper only when it is vertically
  visible. When this walk visits the groupers \<open>xs\<close>, the target is the last grouper visited:
  a grouper that is not vertically visible or has no further sibling, and no target when
  there is no sibling at all. The handler returns, scrolls the target into view first
  (aligned to the top for PageDown, to the bottom for PageUp) and then cancels the event.
\<close>

theorem page_keys_target:
  assumes "val w = Some cur" and "ownerDocument env w cur \<noteq> None"
    and "getGroupper env w cur = Some g"
    and "step = (if down then findNextGroupper env w else findPrevGroupper env w)"
    and "visited step (isElementVerticallyVisibleInContainer env w)
           (step (groupperElement g)) xs"
  shows "(if down then findPageDownGroupper env w (groupperElement g)
          else findPageUpGroupper env w (groupperElement g)) = Some (lastVisited xs)
    \<and> (\<forall>t. lastVisited xs = Some t \<longrightarrow>
          \<not> isElementVerticallyVisibleInContainer env w t \<or> step t = None)
    \<and> (\<exists>w'. onKeyDown env (if down then PageDown else PageUp) shiftKey w = Some w'
          \<and> (case lastVisited xs of
                None \<Rightarrow> trace w' = trace w @ [PreventDefault, StopImmediatePropagation]
              | Some t \<Rightarrow> (\<exists>rest. trace w' = trace w @
                  [ScrollIntoView t down, PreventDefault, StopImmediatePropagation] @ rest)))"
proof -
  have target: "(if down then findPageDownGroupper env w (groupperElement g)
          else findPageUpGroupper env w (groupperElement g)) = Some (lastVisited xs)"
    using assms(4,5) findPageDownGroupper_visited [of env w "groupperElement g" xs]
      findPageUpGroupper_visited [of env w "groupperElement g" xs]
    by (cases down) simp_all
  have edge: "\<forall>t. lastVisited xs = Some t \<longrightarrow>
          \<not> isElementVerticallyVisibleInContainer env w t \<or> step t = None"
    using visited_last [OF assms(5)] by (auto simp: lastVisited_def split: if_splits)
  from onKeyDown_page [OF assms(1-3) target] target edge show ?thesis by blast
qed

theorem page_keys_target_witness:
  "val pageWorld = Some 1 \<and> ownerDocument pageEnv pageWorld 1 \<noteq> None
   \<and> visited (findNextGroupper pageEnv pageWorld)
        (isElementVerticallyVisibleInContainer pageEnv pageWorld)
        (findNextGroupper pageEnv pageWorld 1) [2, 3]
   \<and> findPageDownGroupper pageEnv pageWorld 1 = Some (Some 3)
   \<and> (\<exists>w'. onKeyDown pageEnv PageDown False pageWorld = Some w'
         \<and> (\<exists>rest. trace w' = trace pageWorld @
               [ScrollIntoView 3 True, PreventDefault, StopImmediatePropagation] @ rest))"
proof -
  let ?g = "\<lparr>groupperElement = 1, basicIsLimited = None, nextDirection = None\<rparr>"
  have v: "val pageWorld = Some 1" by (simp add: pageWorld_def)
  have o: "ownerDocument pageEnv pageWorld 1 \<noteq> None" by (simp add: pageEnv_def quietEnv_def)
  have g: "getGroupper pageEnv pageWorld 1 = Some ?g"
    by (simp add: getGroupper_def pageEnv_def)
  have s: "findNextGroupper pageEnv pageWorld
             = (if True then findNextGroupper pageEnv pageWorld
                else findPrevGroupper pageEnv pageWorld)"
    by simp
  have w: "visited (findNextGroupper pageEnv pageWorld)
        (isElementVerticallyVisibleInContainer pageEnv pageWorld)
        (findNextGroupper pageEnv pageWorld (groupperElement ?g)) [2, 3]"
    by (simp add: pageEnv_def)
  from page_keys_target [OF v o g s w, of False] v o w show ?thesis
    by (simp add: lastVisited_def del: visited.simps)
qed

text \<open>
  C9 as stated fails: with the siblings 2 (visible), 3 (not visible) and 4 after grouper 1,
  PageDown from 1 yields grouper 3, which is not vertically visible, and not grouper 2, the
  last grouper of the visible run.
\<close>

theorem page_down_returns_invisible_groupper:
  "findPageDownGroupper pageEnv pageWorld 1 = Some (Some 3)
   \<and> \<not> isElementVerticallyVisibleInContainer pageEnv pageWorld 3
   \<and> visibleRunEdge (isElementVerticallyVisibleInContainer pageEnv pageWorld) [2, 3, 4] = Some 2
   \<and> findPageDownGroupper pageEnv pageWorld 1
       \<noteq> Some (visibleRunEdge (isElementVerticallyVisibleInContainer pageEnv pageWorld) [2, 3, 4])"
proof -
  have w: "visited (findNextGroupper pageEnv pageWorld)
        (isElementVerticallyVisibleInContainer pageEnv pageWorld)
        (findNextGroupper pageEnv pageWorld 1) [2, 3]"
    by (simp add: pageEnv_def)
  have r: "findPageDownGroupper pageEnv pageWorld 1 = Some (Some 3)"
    using findPageDownGroupper_visited [OF w] by (simp add: lastVisited_def)
  have e: "visibleRunEdge (isElementVerticallyVisibleInContainer pageEnv pageWorld) [2, 3, 4]
            = Some 2"
    by (simp add: visibleRunEdge_def lastVisited_def pageEnv_def)
  have n: "\<not> isElementVerticallyVisibleInContainer pageEnv pageWorld 3"
    by (simp add: pageEnv_def)
  from r e n show ?thesis by simp
qed


subsection \<open>Arrow keys\<close>

lemma down_row:
  assumes "visited (findNextGroupper env w) (\<lambda>x. True) el xs"
  shows "\<exists>l. nextGroupperLoop env w Down fr el (Some n) lastEl (Some p) =
     Some (Some (last (n # takeWhile
        (\<lambda>x. \<not> rectLeft (getBoundingClientRect env w x) > rectLeft fr)
        (takeWhile (\<lambda>x. \<not> rectTop (getBoundingClientRect env w x) > p)
           (filter (\<lambda>x. rectTop (getBoundingClientRect env w x) > rectTop fr) xs)))), l)"
  using assms
proof (induction xs arbitrary: el n lastEl)
  case Nil
  then show ?case by (subst nextGroupperLoop.simps) simp
next
  case (Cons x xs)
  then have el: "el = Some x"
    and rest: "visited (findNextGroupper env w) (\<lambda>x. True) (findNextGroupper env w x) xs"
    by simp_all
  note IH = Cons.IH [OF rest]
  show ?case
    using IH [of n "Some x"] IH [of x "Some x"]
    by (subst nextGroupperLoop.simps) (auto simp: el Let_def)
qed

lemma down_scan:
  assumes "visited (findNextGroupper env w) (\<lambda>x. True) el xs"
  shows "\<exists>nx le. nextGroupperLoop env w Down fr el None lastEl None = Some (nx, le)
     \<and> (case nx of Some n \<Rightarrow> Some n | None \<Rightarrow> le)
       = (case filter (\<lambda>x. rectTop (getBoundingClientRect env w x) > rectTop fr) xs of
            [] \<Rightarrow> (if xs = [] then lastEl else Some (last xs))
          | c # cs \<Rightarrow>
             if rectLeft (getBoundingClientRect env w c) > rectLeft fr then Some c
             else Some (last (c # takeWhile
                 (\<lambda>x. \<not> rectLeft (getBoundingClientRect env w x) > rectLeft fr)
                 (takeWhile (\<lambda>x. \<not> rectTop (getBoundingClientRect env w x)
                      > rectTop (getBoundingClientRect env w c)) cs))))"
  using assms
proof (induction xs arbitrary: el lastEl)
  case Nil
  then show ?case by (subst nextGroupperLoop.simps) simp
next
  case (Cons x xs)
  then have el: "el = Some x"
    and rest: "visited (findNextGroupper env w) (\<lambda>x. True) (findNextGroupper env w x) xs"
    by simp_all
  show ?case
  proof (cases "rectTop (getBoundingClientRect env w x) > rectTop fr")
    case False
    with Cons.IH [OF rest, of "Some x"] el show ?thesis
      by (subst nextGroupperLoop.simps) (auto simp: Let_def split: list.splits)
  next
    case True
    with down_row [OF rest, of fr x "Some x" "rectTop (getBoundingClientRect env w x)"] el
    show ?thesis
      by (subst nextGroupperLoop.simps) (auto simp: Let_def)
  qed
qed

lemma up_row:
  assumes "visited (findPrevGroupper env w) (\<lambda>x. True) el xs"
  shows "\<exists>l. nextGroupperLoop env w Up fr el (Some n) lastEl (Some p) =
     Some (Some (last (n # takeWhile
        (\<lambda>x. \<not> rectLeft (getBoundingClientRect env w x) < rectLeft fr)
        (takeWhile (\<lambda>x. \<not> rectTop (getBoundingClientRect env w x) < p)
           (filter (\<lambda>x. rectTop (getBoundingClientRect env w x) < rectTop fr) xs)))), l)"
  using assms
proof (induction xs arbitrary: el n lastEl)
  case Nil
  then show ?case by (subst nextGroupperLoop.simps) simp
next
  case (Cons x xs)
  then have el: "el = Some x"
    and rest: "visited (findPrevGroupper env w) (\<lambda>x. True) (findPrevGroupper env w x) xs"
    by simp_all
  note IH = Cons.IH [OF rest]
  show ?case
    using IH [of n "Some x"] IH [of x "Some x"]
    by (subst nextGroupperLoop.simps) (auto simp: el Let_def)
qed

lemma up_scan:
  assumes "visited (findPrevGroupper env w) (\<lambda>x. True) el xs"
  shows "\<exists>nx le. nextGroupperLoop env w Up fr el None lastEl None = Some (nx, le)
     \<and> (case nx of Some n \<Rightarrow> Some n | None \<Rightarrow> le)
       = (case filter (\<lambda>x. rectTop (getBoundingClientRect env w x) < rectTop fr) xs of
            [] \<Rightarrow> (if xs = [] then lastEl else Some (last xs))
          | c # cs \<Rightarrow>
             if rectLeft (getBoundingClientRect env w c) < rectLeft fr then Some c
             else Some (last (c # takeWhile
                 (\<lambda>x. \<not> rectLeft (getBoundingClientRect env w x) < rectLeft fr)
                 (takeWhile (\<lambda>x. \<not> rectTop (getBoundingClientRect env w x)
                      < rectTop (getBoundingClientRect env w c)) cs))))"
  using assms
proof (induction xs arbitrary: el lastEl)
  case Nil
  then show ?case by (subst nextGroupperLoop.simps) simp
next
  case (Cons x xs)
  then have el: "el = Some x"
    and rest: "visited (findPrevGroupper env w) (\<lambda>x. True) (findPrevGroupper env w x) xs"
    by simp_all
  show ?case
  proof (cases "rectTop (getBoundingClientRect env w x) < rectTop fr")
    case False
    with Cons.IH [OF rest, of "Some x"] el show ?thesis
      by (subst nextGroupperLoop.simps) (auto simp: Let_def split: list.splits)
  next
    case True
    with up_row [OF rest, of fr x "Some x" "rectTop (getBoundingClientRect env w x)"] el
    show ?thesis
      by (subst nextGroupperLoop.simps) (auto simp: Let_def)
  qed
qed

lemma findNextGroupper'_down:
  assumes "visited (findNextGroupper env w) (\<lambda>x. True) (findNextGroupper env w from) xs"
  shows "findNextGroupper' env w from Down (Some Vertical)
     = Some (rowTarget (\<lambda>a b. a > b) (getBoundingClientRect env w from)
               (getBoundingClientRect env w) xs)"
proof -
  from down_scan [OF assms, of "getBoundingClientRect env w from" None]
  show ?thesis
    unfolding findNextGroupper'_def rowTarget_def lastVisited_def Let_def by fastforce
qed

lemma findNextGroupper'_up:
  assumes "visited (findPrevGroupper env w) (\<lambda>x. True) (findPrevGroupper env w from) xs"
  shows "findNextGroupper' env w from Up (Some Vertical)
     = Some (rowTarget (\<lambda>a b. a < b) (getBoundingClientRect env w from)
               (getBoundingClientRect env w) xs)"
proof -
  from up_scan [OF assms, of "getBoundingClientRect env w from" None]
  show ?thesis
    unfolding findNextGroupper'_def rowTarget_def lastVisited_def Let_def by fastforce
qed

lemma findNextGroupper'_horizontal:
  "findNextGroupper' env w from Left (Some Horizontal) = Some (findPrevGroupper env w from)"
  "findNextGroupper' env w from Right (Some Horizontal) = Some (findNextGroupper env w from)"
proof -
  show "findNextGroupper' env w from Left (Some Horizontal) = Some (findPrevGroupper env w from)"
    unfolding findNextGroupper'_def Let_def
    by (subst nextGroupperLoop.simps) (simp split: option.splits)
  show "findNextGroupper' env w from Right (Some Horizontal) = Some (findNextGroupper env w from)"
    unfolding findNextGroupper'_def Let_def
    by (subst nextGroupperLoop.simps) (simp split: option.splits)
qed

text \<open>
  C2 (as amended). An arrow key handled in the grouper branch takes its target from
  \<^verbatim>\<open>_findNextGroupper\<close>, called with the declared direction of the enclosing grouper.
  When that direction is Both or unset, the target is the collaborator's previous sibling
  grouper for Up and Left and its next sibling grouper for Down and Right, whatever the
  rectangles are. A Vertical grouper yields no target for Left and Right, a Horizontal one
  none for Up and Down; a Horizontal grouper takes the immediate sibling for Left and Right.
  The walk over rows is what a Vertical grouper does for Up and Down: over the siblings
  \<open>xs\<close> in walking order it returns \<open>rowTarget\<close>.
\<close>

theorem arrow_keys_target:
  assumes "key \<in> {Up, Down, Left, Right}"
  shows "groupperSwitch env key cur g w
       = map_option (\<lambda>n. (n, True, w))
           (findNextGroupper' env w (groupperElement g) key (nextDirection g))
    \<and> (direction = None \<or> direction = Some Both \<longrightarrow>
         findNextGroupper' env w from key direction
           = Some (if key = Left \<or> key = Up then findPrevGroupper env w from
                   else findNextGroupper env w from))
    \<and> (key = Left \<or> key = Right \<longrightarrow>
         findNextGroupper' env w from key (Some Vertical) = Some None
         \<and> findNextGroupper' env w from key (Some Horizontal)
             = Some (if key = Left then findPrevGroupper env w from
                     else findNextGroupper env w from))
    \<and> (key = Up \<or> key = Down \<longrightarrow>
         findNextGroupper' env w from key (Some Horizontal) = Some None)
    \<and> (key = Down \<longrightarrow>
         visited (findNextGroupper env w) (\<lambda>x. True) (findNextGroupper env w from) xs \<longrightarrow>
         findNextGroupper' env w from key (Some Vertical)
           = Some (rowTarget (\<lambda>a b. a > b) (getBoundingClientRect env w from)
                     (getBoundingClientRect env w) xs))
    \<and> (key = Up \<longrightarrow>
         visited (findPrevGroupper env w) (\<lambda>x. True) (findPrevGroupper env w from) xs \<longrightarrow>
         findNextGroupper' env w from key (Some Vertical)
           = Some (rowTarget (\<lambda>a b. a < b) (getBoundingClientRect env w from)
                     (getBoundingClientRect env w) xs))"
proof -
  have switch: "groupperSwitch env key cur g w
       = map_option (\<lambda>n. (n, True, w))
           (findNextGroupper' env w (groupperElement g) key (nextDirection g))"
  proof -
    from assms consider "key = Up" | "key = Down" | "key = Left" | "key = Right" by auto
    then show ?thesis
      by cases (simp_all add: groupperSwitch_def Let_def split: option.splits)
  qed
  have both: "direction = None \<or> direction = Some Both \<longrightarrow>
         findNextGroupper' env w from key direction
           = Some (if key = Left \<or> key = Up then findPrevGroupper env w from
                   else findNextGroupper env w from)"
    by (auto simp: findNextGroupper'_def)
  have horizontal: "key = Left \<or> key = Right \<longrightarrow>
         findNextGroupper' env w from key (Some Vertical) = Some None
         \<and> findNextGroupper' env w from key (Some Horizontal)
             = Some (if key = Left then findPrevGroupper env w from
                     else findNextGroupper env w from)"
    using findNextGroupper'_horizontal [of env w "from"]
    by (auto simp: findNextGroupper'_def)
  have vertical: "key = Up \<or> key = Down \<longrightarrow>
         findNextGroupper' env w from key (Some Horizontal) = Some None"
    by (auto simp: findNextGroupper'_def)
  from switch both horizontal vertical
    findNextGroupper'_down [of env w "from" xs] findNextGroupper'_up [of env w "from" xs]
  show ?thesis by blast
qed

theorem arrow_keys_target_witness:
  "Down \<in> {Up, Down, Left, Right} \<and> Left \<in> {Up, Down, Left, Right}
   \<and> Up \<in> {Up, Down, Left, Right}
   \<and> visited (findNextGroupper (gridEnv (Some Vertical)) (gridWorld (Some Vertical)))
       (\<lambda>x. True) (findNextGroupper (gridEnv (Some Vertical)) (gridWorld (Some Vertical)) 1)
       [2, 3]
   \<and> findNextGroupper' (gridEnv (Some Vertical)) (gridWorld (Some Vertical)) 1 Down
        (Some Vertical) = Some (Some 3)
   \<and> findNextGroupper' (gridEnv None) (gridWorld None) 1 Down None = Some (Some 2)
   \<and> findNextGroupper' (gridEnv None) (gridWorld None) 2 Left (Some Vertical) = Some None
   \<and> findNextGroupper' (gridEnv None) (gridWorld None) 2 Left (Some Horizontal)
       = Some (Some 1)
   \<and> findNextGroupper' (gridEnv None) (gridWorld None) 3 Up (Some Horizontal) = Some None
   \<and> visited (findPrevGroupper (gridEnv None) (gridWorld None)) (\<lambda>x. True)
       (findPrevGroupper (gridEnv None) (gridWorld None) 3) [2, 1]
   \<and> findNextGroupper' (gridEnv None) (gridWorld None) 3 Up (Some Vertical) = Some (Some 1)"
proof -
  let ?v = "gridEnv (Some Vertical)" and ?wv = "gridWorld (Some Vertical)"
  let ?n = "gridEnv None" and ?wn = "gridWorld None"
  have kd: "Down \<in> {Up, Down, Left, Right}" and kl: "Left \<in> {Up, Down, Left, Right}"
    and ku: "Up \<in> {Up, Down, Left, Right}" by simp_all
  have vd: "visited (findNextGroupper ?v ?wv) (\<lambda>x. True) (findNextGroupper ?v ?wv 1) [2, 3]"
    by (simp add: gridEnv_def)
  have vu: "visited (findPrevGroupper ?n ?wn) (\<lambda>x. True) (findPrevGroupper ?n ?wn 3) [2, 1]"
    by (simp add: gridEnv_def)
  have d: "findNextGroupper' ?v ?wv 1 Down (Some Vertical) = Some (Some 3)"
    using arrow_keys_target [OF kd, of ?v 0 undefined ?wv None 1 "[2, 3]"] vd
    by (simp add: rowTarget_def gridEnv_def del: visited.simps)
  have b: "findNextGroupper' ?n ?wn 1 Down None = Some (Some 2)"
    using arrow_keys_target [OF kd, of ?n 0 undefined ?wn None 1 "[]"]
    by (simp add: gridEnv_def)
  have l: "findNextGroupper' ?n ?wn 2 Left (Some Vertical) = Some None
      \<and> findNextGroupper' ?n ?wn 2 Left (Some Horizontal) = Some (Some 1)"
    using arrow_keys_target [OF kl, of ?n 0 undefined ?wn None 2 "[]"]
    by (simp add: gridEnv_def)
  have u: "findNextGroupper' ?n ?wn 3 Up (Some Horizontal) = Some None
      \<and> findNextGroupper' ?n ?wn 3 Up (Some Vertical) = Some (Some 1)"
    using arrow_keys_target [OF ku, of ?n 0 undefined ?wn None 3 "[2, 1]"] vu
    by (simp add: rowTarget_def gridEnv_def del: visited.simps)
  from kd kl ku vd vu d b l u show ?thesis by blast
qed

text \<open>
  C2 as stated fails: a grouper whose direction is Both or unset does not use the rectangles.
  With the three sibling groupers at (top 0, left 0), (top 0, left 50) and (top 20, left 0),
  Down from the first selects the second, for an unset direction and for Both, and the key
  handler focuses it.
\<close>

theorem both_down_selects_second:
  "findNextGroupper' (gridEnv None) (gridWorld None) 1 Down None = Some (Some 2)
   \<and> findNextGroupper' (gridEnv (Some Both)) (gridWorld (Some Both)) 1 Down (Some Both)
       = Some (Some 2)
   \<and> onKeyDown (gridEnv (Some Both)) Down False (gridWorld (Some Both))
       = Some (emit [PreventDefault, StopImmediatePropagation, SetCurrentGroupper 2,
                     SetKeyboardNavigation True, CallOriginalFocusOnly 2]
                 (gridWorld (Some Both)))"
proof -
  have a: "findNextGroupper' (gridEnv None) (gridWorld None) 1 Down None = Some (Some 2)"
    by (simp add: findNextGroupper'_def gridEnv_def)
  have b: "findNextGroupper' (gridEnv (Some Both)) (gridWorld (Some Both)) 1 Down (Some Both)
       = Some (Some 2)"
    by (simp add: findNextGroupper'_def gridEnv_def)
  have g: "getGroupper (gridEnv (Some Both)) (gridWorld (Some Both)) 1
       = Some \<lparr>groupperElement = 1, basicIsLimited = None, nextDirection = Some Both\<rparr>"
    by (simp add: getGroupper_def gridEnv_def)
  have v: "val (gridWorld (Some Both)) = Some 1" by (simp add: gridWorld_def)
  have f: "\<And>W e x y z. isFocusable (gridEnv (Some Both)) W e x y z"
    by (simp add: gridEnv_def)
  have o: "\<And>W e. ownerDocument (gridEnv (Some Both)) W e = Some 0"
    by (simp add: gridEnv_def quietEnv_def)
  have c: "onKeyDown (gridEnv (Some Both)) Down False (gridWorld (Some Both))
       = Some (emit [PreventDefault, StopImmediatePropagation, SetCurrentGroupper 2,
                     SetKeyboardNavigation True, CallOriginalFocusOnly 2]
                 (gridWorld (Some Both)))"
    by (simp add: onKeyDown_def onKeyDownGroupper_def groupperSwitch_def g v b f o Let_def
          emit_def del: One_nat_def)
  from a b c show ?thesis by blast
qed




subsection \<open>Tab inside a trapping grouper\<close>

lemma onKeyDown_tab_no_modalizer:
  assumes "val w = Some cur" and "ownerDocument env w cur \<noteq> None"
    and "findRootAndModalizer env w cur = None" and "isInCurrentGroupper env w cur"
  shows "onKeyDown env Tab shiftKey w
     = Some (case tabGroupperOverride env w shiftKey cur
                (if shiftKey then findPrev env w cur else findNext env w cur None) of
          Some n \<Rightarrow> emit [PreventDefault, CallOriginalFocusOnly n] w
        | None \<Rightarrow> w)"
  using assms
  by (cases shiftKey) (auto simp: onKeyDown_def onKeyDownTab_def Let_def split: option.splits)

text \<open>
  C3 (as amended). On Tab and Shift+Tab, let the focused element \<open>cur\<close> lie in a grouper with
  the first focusable element \<open>first\<close>. When \<open>cur\<close> is not \<open>first\<close>, the focus limit of the
  grouper is LimitedTrapFocus, and the default candidate is absent, is \<open>first\<close>, or lies
  outside the grouper, the candidate becomes the grouper's last focusable element on
  Shift+Tab and the next focusable element after \<open>first\<close> within the grouper on Tab.
  When \<open>cur\<close> is \<open>first\<close>, the candidate is not wrapped: it stays the default one, except
  that it becomes \<open>cur\<close> itself when the parent grouper has the limit LimitedTrapFocus and
  does not contain the default candidate. Where no modalizer is involved, the handler
  cancels the event and focuses the candidate.
\<close>

theorem tab_trap_wraps:
  assumes "getGroupper env w cur = Some g"
    and "getFirstInGroupper env w (groupperElement g) False = Some first"
  shows "(cur \<noteq> first \<and> basicIsLimited g = Some LimitedTrapFocus
          \<and> (cand = None \<or> cand = Some first \<or> \<not> contains env w (groupperElement g) cand)
        \<longrightarrow> tabGroupperOverride env w shiftKey cur cand
            = (if shiftKey then findLast env w (groupperElement g)
               else findNext env w first (Some (groupperElement g))))
    \<and> (cur = first \<longrightarrow>
          tabGroupperOverride env w shiftKey cur cand
            = (case parentElement env w (groupperElement g) of
                 None \<Rightarrow> cand
               | Some parent \<Rightarrow>
                  (case getGroupper env w parent of
                     None \<Rightarrow> cand
                   | Some parentGroupper \<Rightarrow>
                       if \<not> contains env w (groupperElement parentGroupper) cand
                          \<and> basicIsLimited parentGroupper = Some LimitedTrapFocus
                       then Some cur else cand)))
    \<and> (val w = Some cur \<and> ownerDocument env w cur \<noteq> None
          \<and> findRootAndModalizer env w cur = None \<and> isInCurrentGroupper env w cur
        \<longrightarrow> onKeyDown env Tab shiftKey w
            = Some (case tabGroupperOverride env w shiftKey cur
                       (if shiftKey then findPrev env w cur else findNext env w cur None) of
                 Some n \<Rightarrow> emit [PreventDefault, CallOriginalFocusOnly n] w
               | None \<Rightarrow> w))"
proof -
  have wrap: "cur \<noteq> first \<and> basicIsLimited g = Some LimitedTrapFocus
          \<and> (cand = None \<or> cand = Some first \<or> \<not> contains env w (groupperElement g) cand)
        \<longrightarrow> tabGroupperOverride env w shiftKey cur cand
            = (if shiftKey then findLast env w (groupperElement g)
               else findNext env w first (Some (groupperElement g)))"
    using assms by (simp add: tabGroupperOverride_def Let_def)
  have stay: "cur = first \<longrightarrow>
          tabGroupperOverride env w shiftKey cur cand
            = (case parentElement env w (groupperElement g) of
                 None \<Rightarrow> cand
               | Some parent \<Rightarrow>
                  (case getGroupper env w parent of
                     None \<Rightarrow> cand
                   | Some parentGroupper \<Rightarrow>
                       if \<not> contains env w (groupperElement parentGroupper) cand
                          \<and> basicIsLimited parentGroupper = Some LimitedTrapFocus
                       then Some cur else cand))"
    using assms by (auto simp: tabGroupperOverride_def Let_def)
  from wrap stay onKeyDown_tab_no_modalizer [of w cur env shiftKey] show ?thesis by blast
qed

lemma trapEnv_groupper:
  "e \<in> {21, 22, 23} \<Longrightarrow> getGroupper trapEnv W e
     = Some \<lparr>groupperElement = 20, basicIsLimited = Some LimitedTrapFocus,
             nextDirection = None\<rparr>"
  by (auto simp: getGroupper_def trapEnv_def)

lemma trapEnv_first: "getFirstInGroupper trapEnv W 20 False = Some 21"
  by (simp add: getFirstInGroupper_def trapEnv_def)

theorem tab_trap_wraps_witness:
  "getGroupper trapEnv (trapWorld 23) 23
     = Some \<lparr>groupperElement = 20, basicIsLimited = Some LimitedTrapFocus,
             nextDirection = None\<rparr>
   \<and> getFirstInGroupper trapEnv (trapWorld 23) 20 False = Some 21
   \<and> findNext trapEnv (trapWorld 23) 23 None = Some 30
   \<and> \<not> contains trapEnv (trapWorld 23) 20 (Some 30)
   \<and> val (trapWorld 23) = Some 23 \<and> ownerDocument trapEnv (trapWorld 23) 23 \<noteq> None
   \<and> findRootAndModalizer trapEnv (trapWorld 23) 23 = None
   \<and> isInCurrentGroupper trapEnv (trapWorld 23) 23
   \<and> tabGroupperOverride trapEnv (trapWorld 23) False 23 (Some 30) = Some 22
   \<and> onKeyDown trapEnv Tab False (trapWorld 23)
       = Some (emit [PreventDefault, CallOriginalFocusOnly 22] (trapWorld 23))
   \<and> tabGroupperOverride trapEnv (trapWorld 22) True 22 (Some 21) = Some 23
   \<and> tabGroupperOverride trapEnv (trapWorld 21) True 21 (Some 10) = Some 10"
proof -
  let ?g = "\<lparr>groupperElement = 20, basicIsLimited = Some LimitedTrapFocus,
             nextDirection = None\<rparr>"
  have g: "\<And>e. e \<in> {21, 22, 23} \<Longrightarrow> getGroupper trapEnv (trapWorld e) e = Some ?g"
    by (rule trapEnv_groupper)
  have g23: "getGroupper trapEnv (trapWorld 23) 23 = Some ?g"
    and g22: "getGroupper trapEnv (trapWorld 22) 22 = Some ?g"
    and g21: "getGroupper trapEnv (trapWorld 21) 21 = Some ?g"
    by (simp_all add: g)
  have f: "\<And>W. getFirstInGroupper trapEnv W (groupperElement ?g) False = Some 21"
    by (simp add: trapEnv_first)
  have n: "findNext trapEnv (trapWorld 23) 23 None = Some 30" by (simp add: trapEnv_def)
  have c: "\<not> contains trapEnv (trapWorld 23) 20 (Some 30)"
    by (simp add: contains_def trapEnv_def)
  have v: "val (trapWorld 23) = Some 23" by (simp add: trapWorld_def)
  have o: "ownerDocument trapEnv (trapWorld 23) 23 \<noteq> None"
    by (simp add: trapEnv_def quietEnv_def)
  have r: "findRootAndModalizer trapEnv (trapWorld 23) 23 = None"
    by (simp add: trapEnv_def quietEnv_def)
  have i: "isInCurrentGroupper trapEnv (trapWorld 23) 23" by (simp add: trapEnv_def)
  have t1: "tabGroupperOverride trapEnv (trapWorld 23) False 23 (Some 30) = Some 22"
    using tab_trap_wraps [OF g23 f, where cand = "Some 30" and shiftKey = False] c
    by (simp add: trapEnv_def)
  have t2: "onKeyDown trapEnv Tab False (trapWorld 23)
       = Some (emit [PreventDefault, CallOriginalFocusOnly 22] (trapWorld 23))"
    using tab_trap_wraps [OF g23 f, where cand = "Some 30" and shiftKey = False] v o r i n t1
    by simp
  have t3: "tabGroupperOverride trapEnv (trapWorld 22) True 22 (Some 21) = Some 23"
    using tab_trap_wraps [OF g22 f, where cand = "Some 21" and shiftKey = True]
    by (simp add: trapEnv_def)
  have t4: "tabGroupperOverride trapEnv (trapWorld 21) True 21 (Some 10) = Some 10"
    using tab_trap_wraps [OF g21 f, where cand = "Some 10" and shiftKey = True]
    by (simp add: trapEnv_def getGroupper_def)
  from g23 f [of "trapWorld 23"] n c v o r i t1 t2 t3 t4
  show ?thesis by simp
qed

text \<open>
  C3 as stated fails. In the grouper with the focusable elements A = 21, B = 22, C = 23 and
  the limit LimitedTrapFocus, Shift+Tab from A, the first focusable element, is not
  redirected to C: the default previous element 10 lies outside the grouper, and the
  handler focuses it.
\<close>

theorem shift_tab_from_first_leaves_trap:
  "getFirstInGroupper trapEnv (trapWorld 21) 20 False = Some 21
   \<and> findLast trapEnv (trapWorld 21) 20 = Some 23
   \<and> findPrev trapEnv (trapWorld 21) 21 = Some 10
   \<and> \<not> contains trapEnv (trapWorld 21) 20 (Some 10)
   \<and> tabGroupperOverride trapEnv (trapWorld 21) True 21 (Some 10) = Some 10
   \<and> onKeyDown trapEnv Tab True (trapWorld 21)
       = Some (emit [PreventDefault, CallOriginalFocusOnly 10] (trapWorld 21))"
proof -
  have t: "tabGroupperOverride trapEnv (trapWorld 21) True 21 (Some 10) = Some 10"
    by (simp add: tabGroupperOverride_def trapEnv_groupper trapEnv_first Let_def)
       (simp add: trapEnv_def getGroupper_def)
  have p: "findPrev trapEnv (trapWorld 21) 21 = Some 10" by (simp add: trapEnv_def)
  have k: "onKeyDown trapEnv Tab True (trapWorld 21)
       = Some (emit [PreventDefault, CallOriginalFocusOnly 10] (trapWorld 21))"
    using onKeyDown_tab_no_modalizer [of "trapWorld 21" 21 trapEnv True] t p
    by (simp add: trapWorld_def trapEnv_def quietEnv_def)
  have c: "\<not> contains trapEnv (trapWorld 21) 20 (Some 10)"
    by (simp add: contains_def trapEnv_def)
  have l: "findLast trapEnv (trapWorld 21) 20 = Some 23" by (simp add: trapEnv_def)
  from t p k c l trapEnv_first [of "trapWorld 21"] show ?thesis by simp
qed


subsection \<open>Focus validation\<close>

lemma validate_outside:
  assumes "findRootAndModalizer env w element = Some r" and "ramModalizer r = Some m"
    and "getCurrentModalizerId env w (ramRoot r) = Some cur" and "cur \<noteq> userId m"
    and "isFocusedProgrammatically details \<noteq> Some True"
    and "ownerDocument env (emit [SetCurrentGroupper element] w) element = Some doc"
  shows "validateFocusedElement H env element details w =
     (case findFirst env (emit [SetCurrentGroupper element] w) (rootElement (ramRoot r))
             False False False of
        None \<Rightarrow> map_option Inr (nativeBlur H env element (emit [SetCurrentGroupper element] w))
      | Some first \<Rightarrow>
          if and (compareDocumentPosition env (emit [SetCurrentGroupper element] w) element first)
               DOCUMENT_POSITION_PRECEDING \<noteq> 0
          then (case findLast env (emit [SetCurrentGroupper element] w)
                       (body env (emit [SetCurrentGroupper element] w) doc) of
                  None \<Rightarrow> Some (Inl (Error ''Something went wrong.'',
                                      emit [SetCurrentGroupper element] w))
                | Some l \<Rightarrow> map_option (\<lambda>r. Inr (snd r))
                      (focus H env l False False (emit [SetCurrentGroupper element] w)))
          else map_option (\<lambda>r. Inr (snd r))
                 (focus H env first False False (emit [SetCurrentGroupper element] w)))"
  using assms
  by (simp add: validateFocusedElement_def emit_def Let_def split: option.splits)

lemma validate_throws_only_outside:
  assumes "validateFocusedElement H env element details w = Some (Inl x)"
  shows "\<exists>r m cur doc first.
       findRootAndModalizer env w element = Some r \<and> ramModalizer r = Some m
     \<and> getCurrentModalizerId env w (ramRoot r) = Some cur \<and> cur \<noteq> userId m
     \<and> isFocusedProgrammatically details \<noteq> Some True
     \<and> ownerDocument env (emit [SetCurrentGroupper element] w) element = Some doc
     \<and> findFirst env (emit [SetCurrentGroupper element] w) (rootElement (ramRoot r))
           False False False = Some first
     \<and> and (compareDocumentPosition env (emit [SetCurrentGroupper element] w) element first)
           DOCUMENT_POSITION_PRECEDING \<noteq> 0
     \<and> findLast env (emit [SetCurrentGroupper element] w)
           (body env (emit [SetCurrentGroupper element] w) doc) = None
     \<and> x = (Error ''Something went wrong.'', emit [SetCurrentGroupper element] w)"
  using assms
  by (auto simp: validateFocusedElement_def emit_def Let_def
           split: option.splits if_splits)

lemma setFocusedElement_None_returns:
  "setFocusedElement H env None related w \<noteq> Some (Inl x)"
  by (simp add: setFocusedElement_def commitSnapshot_def Let_def)

lemma setFocusedElement_throws_in_validate:
  assumes "setFocusedElement H env (Some e) related w = Some (Inl x)"
  shows "\<exists>d w0. validateFocusedElement H env e d w0 = Some (Inl x)"
  using assms
  by (auto simp: setFocusedElement_def commitSnapshot_def Let_def
           split: if_splits option.splits sum.splits)

text \<open>
  C8. Focus validation throws exactly when the focused element resolves to a modalizer
  other than the current one of its root, the focus is not programmatic, the first
  focusable element of the root precedes the focused element in document order, and the
  collaborator returns no last focusable element for the document body. When the root has
  no first focusable element, the focused element is blurred and nothing is thrown.
  Nothing else in the tracker throws: processing a focus-out never does, and processing a
  focus-in throws only where its validation does.
\<close>

theorem single_fatal_condition:
  "((\<exists>x. validateFocusedElement H env element details w = Some (Inl x)) \<longleftrightarrow>
      (\<exists>r m cur doc first.
          findRootAndModalizer env w element = Some r \<and> ramModalizer r = Some m
        \<and> getCurrentModalizerId env w (ramRoot r) = Some cur \<and> cur \<noteq> userId m
        \<and> isFocusedProgrammatically details \<noteq> Some True
        \<and> ownerDocument env (emit [SetCurrentGroupper element] w) element = Some doc
        \<and> findFirst env (emit [SetCurrentGroupper element] w) (rootElement (ramRoot r))
              False False False = Some first
        \<and> and (compareDocumentPosition env (emit [SetCurrentGroupper element] w) element first)
              DOCUMENT_POSITION_PRECEDING \<noteq> 0
        \<and> findLast env (emit [SetCurrentGroupper element] w)
              (body env (emit [SetCurrentGroupper element] w) doc) = None))
   \<and> (\<forall>r m cur doc.
          findRootAndModalizer env w element = Some r \<and> ramModalizer r = Some m
        \<and> getCurrentModalizerId env w (ramRoot r) = Some cur \<and> cur \<noteq> userId m
        \<and> isFocusedProgrammatically details \<noteq> Some True
        \<and> ownerDocument env (emit [SetCurrentGroupper element] w) element = Some doc
        \<and> findFirst env (emit [SetCurrentGroupper element] w) (rootElement (ramRoot r))
              False False False = None
        \<longrightarrow> validateFocusedElement H env element details w
              = map_option Inr (nativeBlur H env element (emit [SetCurrentGroupper element] w)))
   \<and> (\<forall>x. setFocusedElement H env None related w \<noteq> Some (Inl x))
   \<and> (\<forall>x. setFocusedElement H env (Some element) related w = Some (Inl x) \<longrightarrow>
          (\<exists>d w0. validateFocusedElement H env element d w0 = Some (Inl x)))"
proof -
  have throws: "(\<exists>x. validateFocusedElement H env element details w = Some (Inl x)) \<longleftrightarrow>
      (\<exists>r m cur doc first.
          findRootAndModalizer env w element = Some r \<and> ramModalizer r = Some m
        \<and> getCurrentModalizerId env w (ramRoot r) = Some cur \<and> cur \<noteq> userId m
        \<and> isFocusedProgrammatically details \<noteq> Some True
        \<and> ownerDocument env (emit [SetCurrentGroupper element] w) element = Some doc
        \<and> findFirst env (emit [SetCurrentGroupper element] w) (rootElement (ramRoot r))
              False False False = Some first
        \<and> and (compareDocumentPosition env (emit [SetCurrentGroupper element] w) element first)
              DOCUMENT_POSITION_PRECEDING \<noteq> 0
        \<and> findLast env (emit [SetCurrentGroupper element] w)
              (body env (emit [SetCurrentGroupper element] w) doc) = None)"
    (is "?L \<longleftrightarrow> ?R")
  proof
    assume ?L
    then obtain x where "validateFocusedElement H env element details w = Some (Inl x)" ..
    from validate_throws_only_outside [OF this] show ?R by blast
  next
    assume ?R
    then obtain r m cur doc first where
      c: "findRootAndModalizer env w element = Some r" "ramModalizer r = Some m"
         "getCurrentModalizerId env w (ramRoot r) = Some cur" "cur \<noteq> userId m"
         "isFocusedProgrammatically details \<noteq> Some True"
         "ownerDocument env (emit [SetCurrentGroupper element] w) element = Some doc"
      and f: "findFirst env (emit [SetCurrentGroupper element] w) (rootElement (ramRoot r))
              False False False = Some first"
         "and (compareDocumentPosition env (emit [SetCurrentGroupper element] w) element first)
              DOCUMENT_POSITION_PRECEDING \<noteq> 0"
         "findLast env (emit [SetCurrentGroupper element] w)
              (body env (emit [SetCurrentGroupper element] w) doc) = None"
      by blast
    from validate_outside [OF c, of H] f show ?L by simp
  qed
  have blur: "\<forall>r m cur doc.
          findRootAndModalizer env w element = Some r \<and> ramModalizer r = Some m
        \<and> getCurrentModalizerId env w (ramRoot r) = Some cur \<and> cur \<noteq> userId m
        \<and> isFocusedProgrammatically details \<noteq> Some True
        \<and> ownerDocument env (emit [SetCurrentGroupper element] w) element = Some doc
        \<and> findFirst env (emit [SetCurrentGroupper element] w) (rootElement (ramRoot r))
              False False False = None
        \<longrightarrow> validateFocusedElement H env element details w
              = map_option Inr (nativeBlur H env element (emit [SetCurrentGroupper element] w))"
  proof (intro allI impI, elim conjE)
    fix r m cur doc
    assume c: "findRootAndModalizer env w element = Some r" "ramModalizer r = Some m"
         "getCurrentModalizerId env w (ramRoot r) = Some cur" "cur \<noteq> userId m"
         "isFocusedProgrammatically details \<noteq> Some True"
         "ownerDocument env (emit [SetCurrentGroupper element] w) element = Some doc"
      and f: "findFirst env (emit [SetCurrentGroupper element] w) (rootElement (ramRoot r))
              False False False = None"
    from validate_outside [OF c, of H] f
    show "validateFocusedElement H env element details w
              = map_option Inr (nativeBlur H env element (emit [SetCurrentGroupper element] w))"
      by simp
  qed
  from throws blur setFocusedElement_None_returns [of H env related w]
    setFocusedElement_throws_in_validate [of H env element related w]
  show ?thesis by blast
qed

lemma modalEnv_facts:
  "findRootAndModalizer (modalEnv f l) W 50 = Some \<lparr>ramRoot = modalRoot,
       ramModalizer = Some \<lparr>userId = ''m2'', modalizerElement = 42\<rparr>\<rparr>"
  "getCurrentModalizerId (modalEnv f l) W modalRoot = Some ''m1''"
  "ownerDocument (modalEnv f l) W 50 = Some 0"
  "findFirst (modalEnv f l) W 40 False False False = f"
  "findLast (modalEnv f l) W (body (modalEnv f l) W 0) = l"
  "and (compareDocumentPosition (modalEnv f l) W 50 45) DOCUMENT_POSITION_PRECEDING \<noteq> 0"
  "and (compareDocumentPosition (modalEnv f l) W 50 55) DOCUMENT_POSITION_PRECEDING = 0"
  by (simp_all add: modalEnv_def quietEnv_def DOCUMENT_POSITION_PRECEDING_def)

theorem single_fatal_condition_witness:
  "(\<exists>x. validateFocusedElement (dispatch (Suc 0) (modalEnv (Some 45) None)) (modalEnv (Some 45) None) 50
          \<lparr>relatedTarget = Some 45, isFocusedProgrammatically = Some False\<rparr>
          (modalWorld (Some 45) None) = Some (Inl x))
   \<and> validateFocusedElement (dispatch (Suc 0) (modalEnv None None)) (modalEnv None None) 50
          \<lparr>relatedTarget = Some 45, isFocusedProgrammatically = Some False\<rparr>
          (modalWorld None None)
       = map_option Inr (nativeBlur (dispatch (Suc 0) (modalEnv None None)) (modalEnv None None) 50
            (emit [SetCurrentGroupper 50] (modalWorld None None)))"
proof -
  let ?d = "\<lparr>relatedTarget = Some 45, isFocusedProgrammatically = Some False\<rparr>"
  let ?r = "\<lparr>ramRoot = modalRoot,
       ramModalizer = Some \<lparr>userId = ''m2'', modalizerElement = 42\<rparr>\<rparr>"
  have a: "\<exists>x. validateFocusedElement (dispatch (Suc 0) (modalEnv (Some 45) None)) (modalEnv (Some 45) None) 50 ?d
          (modalWorld (Some 45) None) = Some (Inl x)"
    using single_fatal_condition
      [of "dispatch (Suc 0) (modalEnv (Some 45) None)" "modalEnv (Some 45) None" 50 ?d "modalWorld (Some 45) None" None]
      modalEnv_facts [of "Some 45" None]
    by (simp add: modalRoot_def)
  have b: "validateFocusedElement (dispatch (Suc 0) (modalEnv None None)) (modalEnv None None) 50 ?d (modalWorld None None)
       = map_option Inr (nativeBlur (dispatch (Suc 0) (modalEnv None None)) (modalEnv None None) 50
            (emit [SetCurrentGroupper 50] (modalWorld None None)))"
    using single_fatal_condition
      [of "dispatch (Suc 0) (modalEnv None None)" "modalEnv None None" 50 ?d "modalWorld None None" None]
      modalEnv_facts [of None None]
    by (simp add: modalRoot_def)
  from a b show ?thesis by blast
qed


subsection \<open>Re-entrant focus changes\<close>

lemma never_stale_append_plain:
  "\<not> list_ex is_snapshot ts \<Longrightarrow>
     never_stale cur (ts @ us) = (never_stale cur ts \<and> never_stale cur us)"
  by (induction cur ts rule: never_stale.induct) auto

lemma never_stale_append:
  "never_stale cur ts \<Longrightarrow> (\<forall>c. never_stale c us) \<Longrightarrow> never_stale cur (ts @ us)"
  by (induction cur ts rule: never_stale.induct) auto

lemma rok_refl: "rok c c"
  by (cases c) (simp add: rok_def)

lemma rok_trans:
  assumes "rok a b" and "rok b c"
  shows "rok a c"
proof -
  obtain h t nv where a: "a = (h, t, nv)" by (cases a)
  obtain h' t' nv' where b: "b = (h', t', nv')" by (cases b)
  obtain h'' t'' nv'' where c: "c = (h'', t'', nv'')" by (cases c)
  from assms(1) a b obtain ts where 1: "h \<le> h'" "t' = t @ ts" "\<forall>cur. never_stale cur ts"
    "if list_ex is_snapshot ts then (\<forall>x. nv' = Some x \<longrightarrow> h \<le> x) else nv' = nv"
    by (auto simp: rok_def)
  from assms(2) b c obtain us where 2: "h' \<le> h''" "t'' = t' @ us" "\<forall>cur. never_stale cur us"
    "if list_ex is_snapshot us then (\<forall>x. nv'' = Some x \<longrightarrow> h' \<le> x) else nv'' = nv'"
    by (auto simp: rok_def)
  have n: "\<forall>cur. never_stale cur (ts @ us)"
    using 1(3) 2(3) by (simp add: never_stale_append)
  have nv: "if list_ex is_snapshot (ts @ us) then (\<forall>x. nv'' = Some x \<longrightarrow> h \<le> x) else nv'' = nv"
    using 1(1,4) 2(4) by (auto split: if_splits)
  from 1(1,2) 2(1,2) n nv show ?thesis
    unfolding a c rok_def by (simp del: list_ex_append)
qed

lemma rok_plain:
  assumes "\<not> list_ex is_snapshot cs" and "\<not> list_ex is_setVal cs"
  shows "rok (h, t, nv) (h, t @ cs, nv)"
proof -
  have "never_stale cur cs" for cur
    using assms by (induction cur cs rule: never_stale.induct) auto
  with assms show ?thesis by (simp add: rok_def)
qed

lemma rok_alloc: "rok (h, t, nv) (Suc h, t @ [NewSnapshot h v d], Some h)"
  by (simp add: rok_def)

lemma rok_publish:
  assumes "rok (Suc h, t @ [NewSnapshot h v d], Some h) (h2, t2, nv2)"
    and "\<not> list_ex is_snapshot us" and "\<forall>u \<in> set us. is_setVal u \<longrightarrow> u = SetVal v d"
  shows "rok (h, t, nv) (h2, t2 @ (if nv2 = Some h then us else []), None)"
proof -
  from assms(1) obtain ts where 1: "Suc h \<le> h2" "t2 = t @ NewSnapshot h v d # ts"
    "\<forall>cur. never_stale cur ts"
    "if list_ex is_snapshot ts then (\<forall>x. nv2 = Some x \<longrightarrow> Suc h \<le> x) else nv2 = Some h"
    by (auto simp: rok_def)
  have us: "never_stale (Some (v, d)) us"
    using assms(2,3) by (induction "Some (v, d)" us rule: never_stale.induct) auto
  show ?thesis
  proof (cases "list_ex is_snapshot ts")
    case True
    with 1(4) have "nv2 \<noteq> Some h" by auto
    with 1 show ?thesis by (simp add: rok_def)
  next
    case False
    with 1(4) have "nv2 = Some h" by simp
    moreover have "\<forall>cur. never_stale cur (NewSnapshot h v d # ts @ us)"
      using False 1(3) us by (simp add: never_stale_append_plain)
    ultimately show ?thesis using 1(1,2) by (simp add: rok_def)
  qed
qed


lemma core_simps [simp]:
  "core (w\<lparr>activeElement := x\<rparr>) = core w"
  "core (w\<lparr>lastFocusedProgrammatically := y\<rparr>) = core w"
  "core (w\<lparr>lastResetElement := y\<rparr>) = core w"
  "core (w\<lparr>val := y\<rparr>) = core w"
  "core (w\<lparr>lastVal := y\<rparr>) = core w"
  "core (w\<lparr>prevVal := y\<rparr>) = core w"
  by (simp_all add: core_def)

lemma core_setVal:
  "core (setVal v d w)
     = (heapTop w, trace w @ (SetVal v d # (if val w = v then [] else [Notify v d])),
        map_option addr (nextVal w))"
  by (cases v) (simp_all add: core_def setVal_def superSetVal_def Let_def)

lemma rok_nativeFocus:
  assumes "well_behaved H" and "nativeFocus H env el w = Some w'"
  shows "rok (core w) (core w')"
proof (cases "\<not> canReceiveFocus env w el \<or> activeElement w = Some el")
  case True
  with assms(2) show ?thesis by (simp add: nativeFocus_def rok_refl)
next
  case False
  show ?thesis
  proof (cases "activeElement w")
    case None
    with False assms(2) have "H (FocusIn el None) (w\<lparr>activeElement := Some el\<rparr>) = Some w'"
      by (simp add: nativeFocus_def)
    with assms(1) have "rok (core (w\<lparr>activeElement := Some el\<rparr>)) (core w')"
      unfolding well_behaved_def by blast
    then show ?thesis by simp
  next
    case (Some old)
    with False assms(2) obtain w1 where
      1: "H (FocusOut old (Some el)) (w\<lparr>activeElement := None\<rparr>) = Some w1"
      and 2: "H (FocusIn el (Some old)) (w1\<lparr>activeElement := Some el\<rparr>) = Some w'"
      by (auto simp: nativeFocus_def split: option.splits)
    from assms(1) 1 have "rok (core (w\<lparr>activeElement := None\<rparr>)) (core w1)"
      unfolding well_behaved_def by blast
    moreover from assms(1) 2 have "rok (core (w1\<lparr>activeElement := Some el\<rparr>)) (core w')"
      unfolding well_behaved_def by blast
    ultimately show ?thesis using rok_trans by simp
  qed
qed

lemma rok_nativeBlur:
  assumes "well_behaved H" and "nativeBlur H env el w = Some w'"
  shows "rok (core w) (core w')"
proof (cases "activeElement w = Some el")
  case True
  with assms(2) have "H (FocusOut el None) (w\<lparr>activeElement := None\<rparr>) = Some w'"
    by (simp add: nativeBlur_def)
  with assms(1) have "rok (core (w\<lparr>activeElement := None\<rparr>)) (core w')"
    unfolding well_behaved_def by blast
  then show ?thesis by simp
next
  case False
  with assms(2) show ?thesis by (simp add: nativeBlur_def rok_refl)
qed

lemma rok_applyFocus:
  assumes "well_behaved H" and "applyFocus f H env el w = Some w'"
  shows "rok (core w) (core w')"
  using assms(2)
proof (induction f arbitrary: w)
  case Native
  with assms(1) show ?case by (simp add: rok_nativeFocus)
next
  case (Wrapper f)
  from Wrapper.IH [of "w\<lparr>lastFocusedProgrammatically := Some el\<rparr>"] Wrapper.prems
  show ?case by simp
qed

lemma rok_focus:
  assumes "well_behaved H" and "focus H env el a b w = Some (r, w')"
  shows "rok (core w) (core w')"
proof (cases "isFocusable env w el a False b")
  case False
  with assms(2) show ?thesis by (simp add: focus_def rok_refl)
next
  case True
  with assms(2) have e: "elementFocus H env el (w\<lparr>lastFocusedProgrammatically := Some el\<rparr>) = Some w'"
    by (auto simp: focus_def split: option.splits)
  have "rok (core (w\<lparr>lastFocusedProgrammatically := Some el\<rparr>)) (core w')"
  proof (cases "honoursPrototypeOverride env")
    case True
    with e have "applyFocus (protoFocus w) H env el
        (w\<lparr>lastFocusedProgrammatically := Some el\<rparr>) = Some w'"
      by (simp add: elementFocus_def)
    from rok_applyFocus [OF assms(1) this] show ?thesis .
  next
    case False
    with e have "nativeFocus H env el (w\<lparr>lastFocusedProgrammatically := Some el\<rparr>) = Some w'"
      by (simp add: elementFocus_def)
    from rok_nativeFocus [OF assms(1) this] show ?thesis .
  qed
  then show ?thesis by simp
qed


lemma rok_emit_plain:
  assumes "\<not> list_ex is_snapshot cs" and "\<not> list_ex is_setVal cs"
  shows "rok (core w) (core (w\<lparr>trace := trace w @ cs\<rparr>))"
  using rok_plain [OF assms] by (simp add: core_def)

lemma rok_validate:
  assumes "well_behaved H" and "validateFocusedElement H env e d w = Some r"
  shows "rok (core w) (core (world_of r))"
proof -
  let ?w1 = "w\<lparr>trace := trace w @ [SetCurrentGroupper e]\<rparr>"
  have 1: "rok (core w) (core ?w1)" by (rule rok_emit_plain) simp_all
  have f: "focus H env t False False ?w1 = Some x \<Longrightarrow> rok (core w) (core (snd x))" for t x
    using rok_trans [OF 1 rok_focus [OF assms(1), of env t False False ?w1 "fst x" "snd x"]]
    by simp
  have b: "nativeBlur H env e ?w1 = Some x \<Longrightarrow> rok (core w) (core x)" for x
    using rok_trans [OF 1 rok_nativeBlur [OF assms(1), of env e ?w1 x]] by simp
  from assms(2) show ?thesis
    unfolding validateFocusedElement_def Let_def
    by (auto simp: rok_emit_plain split: option.splits if_splits dest: f b)
qed


lemma rok_commitSnapshot:
  assumes "well_behaved H" and "commitSnapshot H env el d w = Some r"
  shows "rok (core w) (core (world_of r))"
proof -
  let ?h = "heapTop w"
  let ?w1 = "w\<lparr>nextVal := Some \<lparr>addr = ?h, snapElement = el, snapDetails = d\<rparr>,
                 heapTop := Suc ?h, trace := trace w @ [NewSnapshot ?h el d]\<rparr>"
  have c1: "core ?w1 = (Suc ?h, trace w @ [NewSnapshot ?h el d], Some ?h)"
    by (simp add: core_def)
  have a: "rok (core w) (core ?w1)"
    unfolding c1 using rok_alloc [of ?h "trace w" "map_option addr (nextVal w)" el d]
    by (simp add: core_def)
  define v where "v = (case el of
                 Some e \<Rightarrow>
                   if el \<noteq> val ?w1 then validateFocusedElement H env e d ?w1
                   else Some (Inr ?w1)
               | None \<Rightarrow> Some (Inr ?w1))"
  have v: "v = Some x \<Longrightarrow> rok (core ?w1) (core (world_of x))" for x
    using rok_validate [OF assms(1), of env _ d ?w1 x]
    by (auto simp: v_def rok_refl split: option.splits if_splits)
  from assms(2) have r: "r = (case v of
           Some (Inl thrown) \<Rightarrow> Inl thrown
         | Some (Inr w2) \<Rightarrow>
             Inr ((if map_option addr (nextVal w2) = Some ?h
                        then setVal el d w2 else w2)\<lparr>nextVal := None\<rparr>))" and vs: "v \<noteq> None"
    unfolding commitSnapshot_def Let_def v_def [symmetric]
    by (auto split: option.splits sum.splits)
  from vs obtain x where x: "v = Some x" by auto
  show ?thesis
  proof (cases x)
    case (Inl thrown)
    with r x have "r = Inl thrown" by simp
    with v [OF x] Inl a show ?thesis using rok_trans by auto
  next
    case (Inr w2)
    let ?us = "SetVal el d # (if val w2 = el then [] else [Notify el d])"
    from v [OF x] Inr have "rok (Suc ?h, trace w @ [NewSnapshot ?h el d], Some ?h) (core w2)"
      by (simp add: c1)
    then have "rok (Suc ?h, trace w @ [NewSnapshot ?h el d], Some ?h)
        (heapTop w2, trace w2, map_option addr (nextVal w2))"
      by (simp add: core_def)
    from rok_publish [OF this, of ?us "map_option addr (nextVal w)"]
    have p: "rok (core w) (heapTop w2,
        trace w2 @ (if map_option addr (nextVal w2) = Some ?h then ?us else []), None)"
      by (simp add: core_def)
    have "core (world_of r) = (heapTop w2,
        trace w2 @ (if map_option addr (nextVal w2) = Some ?h then ?us else []), None)"
      using r x Inr core_setVal [of el d w2]
      by (simp add: core_def)
    with p show ?thesis by simp
  qed
qed

lemma rok_setFocusedElement:
  assumes "well_behaved H" and "setFocusedElement H env el related w = Some r"
  shows "rok (core w) (core (world_of r))"
proof (cases el)
  case None
  with assms show ?thesis by (simp add: setFocusedElement_def rok_commitSnapshot)
next
  case (Some e)
  let ?w1 = "w\<lparr>lastResetElement := None\<rparr>"
  have c: "commitSnapshot H env (Some e) d W = Some r \<Longrightarrow> core W = core w
      \<Longrightarrow> rok (core w) (core (world_of r))" for d W
    using rok_commitSnapshot [OF assms(1), of env "Some e" d W r] by simp
  from assms(2) Some show ?thesis
    unfolding setFocusedElement_def Let_def
    by (auto simp: rok_refl split: if_splits dest: c)
qed

lemma rok_reportException:
  assumes "reportException x = Some w'" and "\<And>r. x = Some r \<Longrightarrow> rok c (core (world_of r))"
  shows "rok c (core w')"
proof -
  from assms(1) obtain r where r: "x = Some r" by (cases x) (auto simp: reportException_def)
  show ?thesis
  proof (cases r)
    case (Inr w1)
    with r assms show ?thesis by (auto simp: reportException_def)
  next
    case (Inl t)
    obtain m w1 where t: "t = (Error m, w1)" by (cases t) (metis error.exhaust)
    with Inl r assms(1) have w': "w' = w1\<lparr>trace := trace w1 @ [UncaughtError m]\<rparr>"
      by (simp add: reportException_def)
    from assms(2) [OF r] Inl t have "rok c (core w1)" by simp
    from rok_trans [OF this rok_emit_plain [of "[UncaughtError m]" w1]] w'
    show ?thesis by simp
  qed
qed

lemma well_behaved_dispatch: "well_behaved (dispatch n env)"
proof (induction n)
  case 0
  show ?case by (simp add: well_behaved_def dispatch.simps)
next
  case (Suc n)
  show ?case
    unfolding well_behaved_def
  proof (intro allI impI)
    fix ev w w'
    assume d: "dispatch (Suc n) env ev w = Some w'"
    show "rok (core w) (core w')"
    proof (cases ev)
      case (FocusIn target related)
      show ?thesis
      proof (cases "listening w OnDocument ''focusin'' HOnFocusIn True")
        case True
        with d FocusIn have "reportException (onFocusIn (dispatch n env) env target related w)
            = Some w'" by (simp add: dispatch.simps)
        from rok_reportException [OF this] rok_setFocusedElement [OF Suc]
        show ?thesis by (simp add: onFocusIn_def)
      next
        case False
        with d FocusIn show ?thesis by (simp add: rok_refl dispatch.simps)
      qed
    next
      case (FocusOut target related)
      show ?thesis
      proof (cases "listening w OnDocument ''focusout'' HOnFocusOut True")
        case True
        with d FocusOut have "reportException (onFocusOut (dispatch n env) env related w)
            = Some w'" by (simp add: dispatch.simps)
        from rok_reportException [OF this] rok_setFocusedElement [OF Suc]
        show ?thesis by (simp add: onFocusOut_def)
      next
        case False
        with d FocusOut show ?thesis by (simp add: rok_refl dispatch.simps)
      qed
    qed
  qed
qed

subsection \<open>What the listeners do to the tracker\<close>

lemma published_append [simp]: "published (a @ b) = published a @ published b"
  by (induction a rule: published.induct) simp_all

lemma frame_refl [simp]: "frame w w"
  by (simp add: frame_def)

lemma frame_trans: "frame a b \<Longrightarrow> frame b c \<Longrightarrow> frame a c"
  by (simp add: frame_def)

lemma listening_frame: "frame w w' \<Longrightarrow> listening w' t ty h c = listening w t ty h c"
  by (simp add: frame_def listening_def)

text \<open>Processing a focus-out: it returns, publishes the absent value, and leaves the
  markers alone.\<close>

lemma focusOut_effect:
  "\<exists>w'. setFocusedElement H env None related w = Some (Inr w')
     \<and> frame w w' \<and> val w' = None \<and> nextVal w' = None
     \<and> lastFocusedProgrammatically w' = lastFocusedProgrammatically w
     \<and> lastResetElement w' = lastResetElement w
     \<and> (\<exists>ts. trace w' = trace w @ ts \<and> set (published ts) \<subseteq> {None})"
  by (simp add: setFocusedElement_def commitSnapshot_def setVal_def superSetVal_def Let_def
        frame_def)

lemma dispatch_focusOut:
  "\<exists>w'. dispatch (Suc n) env (FocusOut target related) w = Some w'
     \<and> frame w w'
     \<and> lastFocusedProgrammatically w' = lastFocusedProgrammatically w
     \<and> lastResetElement w' = lastResetElement w
     \<and> (if listening w OnDocument ''focusout'' HOnFocusOut True
         then val w' = None \<and> nextVal w' = None else w' = w)
     \<and> (\<exists>ts. trace w' = trace w @ ts \<and> set (published ts) \<subseteq> {None})"
proof (cases "listening w OnDocument ''focusout'' HOnFocusOut True")
  case True
  from focusOut_effect [of "dispatch n env" env related w] obtain w' where
    "setFocusedElement (dispatch n env) env None related w = Some (Inr w')"
    "frame w w'" "val w' = None" "nextVal w' = None"
    "lastFocusedProgrammatically w' = lastFocusedProgrammatically w"
    "lastResetElement w' = lastResetElement w"
    "\<exists>ts. trace w' = trace w @ ts \<and> set (published ts) \<subseteq> {None}"
    by blast
  with True show ?thesis by (simp add: dispatch.simps onFocusOut_def reportException_def)
next
  case False
  then show ?thesis by (simp add: dispatch.simps)
qed

text \<open>Validation of a programmatic focus makes no call that could re-enter.\<close>

lemma validate_programmatic:
  assumes "isFocusedProgrammatically d = Some True"
  shows "\<exists>w'. validateFocusedElement H env e d w = Some (Inr w')
     \<and> frame w w' \<and> val w' = val w \<and> nextVal w' = nextVal w \<and> heapTop w' = heapTop w
     \<and> lastFocusedProgrammatically w' = lastFocusedProgrammatically w
     \<and> lastResetElement w' = lastResetElement w
     \<and> (\<exists>ts. trace w' = trace w @ ts \<and> published ts = [])"
  using assms
  by (auto simp: validateFocusedElement_def Let_def frame_def split: option.splits)

text \<open>Processing the focus-in of the element that the marker names.\<close>

lemma focusIn_programmatic:
  assumes "lastFocusedProgrammatically w = Some e"
  shows "\<exists>w'. setFocusedElement H env (Some e) related w = Some (Inr w')
     \<and> frame w w' \<and> (val w' = val w \<or> val w' = Some e)
     \<and> (nextVal w = None \<longrightarrow> nextVal w' = None)
     \<and> (\<exists>ts. trace w' = trace w @ ts \<and> set (published ts) \<subseteq> {Some e})"
proof (cases "lastResetElement w = Some e \<or> shouldIgnoreFocus env (w\<lparr>lastResetElement := None\<rparr>) e")
  case True
  then show ?thesis by (auto simp: setFocusedElement_def Let_def frame_def)
next
  case False
  let ?d = "\<lparr>relatedTarget = related, isFocusedProgrammatically = Some True\<rparr>"
  let ?w0 = "w\<lparr>lastResetElement := None, lastFocusedProgrammatically := None\<rparr>"
  let ?w1 = "?w0\<lparr>nextVal := Some \<lparr>addr = heapTop w, snapElement = Some e, snapDetails = ?d\<rparr>,
                 heapTop := Suc (heapTop w),
                 trace := trace w @ [NewSnapshot (heapTop w) (Some e) ?d]\<rparr>"
  have s: "setFocusedElement H env (Some e) related w = commitSnapshot H env (Some e) ?d ?w0"
    using False assms by (simp add: setFocusedElement_def Let_def)
  show ?thesis
  proof (cases "val w = Some e")
    case True
    then show ?thesis
      unfolding s
      by (simp add: commitSnapshot_def setVal_def superSetVal_def Let_def frame_def)
  next
    case False
    from validate_programmatic [of ?d H env e ?w1] obtain w2 where
      v: "validateFocusedElement H env e ?d ?w1 = Some (Inr w2)"
      and f: "frame ?w1 w2" "val w2 = val ?w1" "nextVal w2 = nextVal ?w1"
      and t: "\<exists>ts. trace w2 = trace ?w1 @ ts \<and> published ts = []"
      by auto
    from t obtain ts where ts: "trace w2 = trace ?w1 @ ts" "published ts = []" by blast
    have c: "commitSnapshot H env (Some e) ?d ?w0
        = Some (Inr ((setVal (Some e) ?d w2)\<lparr>nextVal := None\<rparr>))"
      using False v f by (simp add: commitSnapshot_def Let_def)
    show ?thesis
      unfolding s c using f ts False
      by (simp add: setVal_def superSetVal_def Let_def frame_def)
  qed
qed


lemma page_refl [simp]: "page w w"
  by (simp add: page_def)

lemma page_trans: "page a b \<Longrightarrow> page b c \<Longrightarrow> page a c"
  by (simp add: page_def)

lemma frame_page: "frame w w' \<Longrightarrow> page w w'"
  by (simp add: frame_def page_def)

lemma page_simps [simp]:
  "page (w\<lparr>activeElement := x\<rparr>) w' = page w w'"
  "page w (w'\<lparr>activeElement := x\<rparr>) = page w w'"
  "page (w\<lparr>lastFocusedProgrammatically := y\<rparr>) w' = page w w'"
  "page w (w'\<lparr>lastFocusedProgrammatically := y\<rparr>) = page w w'"
  "page (w\<lparr>lastResetElement := y\<rparr>) w' = page w w'"
  "page w (w'\<lparr>lastResetElement := y\<rparr>) = page w w'"
  by (simp_all add: page_def)

lemma listening_simps [simp]:
  "listening (w\<lparr>activeElement := x\<rparr>) t ty h c = listening w t ty h c"
  "listening (w\<lparr>lastFocusedProgrammatically := y\<rparr>) t ty h c = listening w t ty h c"
  "listening (w\<lparr>lastResetElement := y\<rparr>) t ty h c = listening w t ty h c"
  by (simp_all add: listening_def)

lemma listening_page: "page w w' \<Longrightarrow> listening w' t ty h c = listening w t ty h c"
  by (simp add: page_def listening_def)

lemma dispatch_focusIn_programmatic:
  assumes "lastFocusedProgrammatically w = Some e"
  shows "\<exists>w'. dispatch (Suc n) env (FocusIn e related) w = Some w'
     \<and> frame w w' \<and> (val w' = val w \<or> val w' = Some e)
     \<and> (nextVal w = None \<longrightarrow> nextVal w' = None)
     \<and> (\<exists>ts. trace w' = trace w @ ts \<and> set (published ts) \<subseteq> {Some e})"
proof (cases "listening w OnDocument ''focusin'' HOnFocusIn True")
  case True
  from focusIn_programmatic [OF assms, of "dispatch n env" env related] obtain w' where
    "setFocusedElement (dispatch n env) env (Some e) related w = Some (Inr w')
     \<and> frame w w' \<and> (val w' = val w \<or> val w' = Some e)
     \<and> (nextVal w = None \<longrightarrow> nextVal w' = None)
     \<and> (\<exists>ts. trace w' = trace w @ ts \<and> set (published ts) \<subseteq> {Some e})" ..
  with True show ?thesis by (simp add: dispatch.simps onFocusIn_def reportException_def)
next
  case False
  then show ?thesis by (simp add: dispatch.simps)
qed


text \<open>The platform's focus primitive, called on the element that the marker names: it
  returns, whatever the listeners find, since the focus-in it causes is a programmatic
  one.\<close>

lemma nativeFocus_programmatic:
  assumes "lastFocusedProgrammatically w = Some el"
  shows "\<exists>w'. nativeFocus (dispatch (Suc n) env) env el w = Some w'
     \<and> page w w'
     \<and> (\<not> canReceiveFocus env w el \<or> activeElement w = Some el \<longrightarrow> w' = w)
     \<and> (canReceiveFocus env w el \<longrightarrow> activeElement w' = Some el)
     \<and> (val w' = val w \<or> val w' = None \<or> val w' = Some el)
     \<and> (nextVal w = None \<longrightarrow> nextVal w' = None)
     \<and> (canReceiveFocus env w el \<and> activeElement w \<noteq> None \<and> activeElement w \<noteq> Some el
          \<and> listening w OnDocument ''focusout'' HOnFocusOut True \<longrightarrow> nextVal w' = None)
     \<and> (\<exists>ts. trace w' = trace w @ ts \<and> set (published ts) \<subseteq> {None, Some el})"
proof (cases "\<not> canReceiveFocus env w el \<or> activeElement w = Some el")
  case True
  then show ?thesis by (auto simp: nativeFocus_def)
next
  case False
  show ?thesis
  proof (cases "activeElement w")
    case None
    let ?w0 = "w\<lparr>activeElement := Some el\<rparr>"
    from dispatch_focusIn_programmatic [of ?w0 el n env None] assms obtain w' where
      d: "dispatch (Suc n) env (FocusIn el None) ?w0 = Some w'"
      and p: "frame ?w0 w'" "val w' = val w \<or> val w' = Some el"
         "nextVal w = None \<longrightarrow> nextVal w' = None"
      and t: "\<exists>ts. trace w' = trace w @ ts \<and> set (published ts) \<subseteq> {Some el}"
      by auto
    from d False None have n: "nativeFocus (dispatch (Suc n) env) env el w = Some w'"
      by (simp add: nativeFocus_def)
    from p(1) have "page w w'" "activeElement w' = Some el"
      by (simp_all add: frame_def page_def)
    with n p t False None show ?thesis by auto
  next
    case (Some old)
    let ?w0 = "w\<lparr>activeElement := None\<rparr>"
    from dispatch_focusOut [of n env old "Some el" ?w0] obtain w1 where
      d1: "dispatch (Suc n) env (FocusOut old (Some el)) ?w0 = Some w1"
      and p1: "frame ?w0 w1" "lastFocusedProgrammatically w1 = Some el"
         "if listening w OnDocument ''focusout'' HOnFocusOut True
          then val w1 = None \<and> nextVal w1 = None else w1 = ?w0"
      and t1: "\<exists>ts. trace w1 = trace w @ ts \<and> set (published ts) \<subseteq> {None}"
      using assms by auto
    let ?w2 = "w1\<lparr>activeElement := Some el\<rparr>"
    from dispatch_focusIn_programmatic [of ?w2 el n env "Some old"] p1(2) obtain w' where
      d2: "dispatch (Suc n) env (FocusIn el (Some old)) ?w2 = Some w'"
      and p2: "frame ?w2 w'" "val w' = val w1 \<or> val w' = Some el"
         "nextVal w1 = None \<longrightarrow> nextVal w' = None"
      and t2: "\<exists>ts. trace w' = trace w1 @ ts \<and> set (published ts) \<subseteq> {Some el}"
      by auto
    from d1 d2 False Some have n: "nativeFocus (dispatch (Suc n) env) env el w = Some w'"
      by (simp add: nativeFocus_def)
    from p1(1) p2(1) have pg: "page w w'" "activeElement w' = Some el"
      by (simp_all add: frame_def page_def)
    from p1(3) p2(2) have v: "val w' = val w \<or> val w' = None \<or> val w' = Some el"
      by (auto split: if_splits)
    from p1(3) p2(3) have nv: "nextVal w = None \<longrightarrow> nextVal w' = None"
      "listening w OnDocument ''focusout'' HOnFocusOut True \<longrightarrow> nextVal w' = None"
      by (auto split: if_splits)
    from t1 t2 have t: "\<exists>ts. trace w' = trace w @ ts \<and> set (published ts) \<subseteq> {None, Some el}"
      by auto
    from n pg v nv t False Some show ?thesis by auto
  qed
qed

lemma marker_idem:
  "lastFocusedProgrammatically w = Some el \<Longrightarrow> w\<lparr>lastFocusedProgrammatically := Some el\<rparr> = w"
  by (cases w) simp

lemma applyFocus_programmatic:
  assumes "lastFocusedProgrammatically w = Some el"
  shows "applyFocus f (dispatch (Suc n) env) env el w
     = nativeFocus (dispatch (Suc n) env) env el w"
  using assms by (induction f) (simp_all add: marker_idem)

lemma elementFocus_programmatic:
  assumes "lastFocusedProgrammatically w = Some el"
  shows "elementFocus (dispatch (Suc n) env) env el w
     = nativeFocus (dispatch (Suc n) env) env el w"
  using assms by (simp add: elementFocus_def applyFocus_programmatic)


lemma focus_effect:
  "\<exists>r w'. focus (dispatch (Suc n) env) env el a b w = Some (r, w')
     \<and> r = isFocusable env w el a False b
     \<and> (\<not> r \<longrightarrow> w' = w)
     \<and> page w w'
     \<and> (val w' = val w \<or> val w' = None \<or> val w' = Some el)
     \<and> (nextVal w = None \<longrightarrow> nextVal w' = None)
     \<and> (r \<and> canReceiveFocus env (w\<lparr>lastFocusedProgrammatically := Some el\<rparr>) el
          \<longrightarrow> activeElement w' = Some el)
     \<and> (r \<and> canReceiveFocus env (w\<lparr>lastFocusedProgrammatically := Some el\<rparr>) el
          \<and> activeElement w \<noteq> None \<and> activeElement w \<noteq> Some el
          \<and> listening w OnDocument ''focusout'' HOnFocusOut True \<longrightarrow> nextVal w' = None)
     \<and> (\<exists>ts. trace w' = trace w @ ts \<and> set (published ts) \<subseteq> {None, Some el})"
proof (cases "isFocusable env w el a False b")
  case False
  then show ?thesis by (auto simp: focus_def)
next
  case True
  let ?w0 = "w\<lparr>lastFocusedProgrammatically := Some el\<rparr>"
  have m: "lastFocusedProgrammatically ?w0 = Some el" by simp
  from nativeFocus_programmatic [OF m, of n env] obtain w' where
    n: "nativeFocus (dispatch (Suc n) env) env el ?w0 = Some w'
     \<and> page ?w0 w'
     \<and> (\<not> canReceiveFocus env ?w0 el \<or> activeElement ?w0 = Some el \<longrightarrow> w' = ?w0)
     \<and> (canReceiveFocus env ?w0 el \<longrightarrow> activeElement w' = Some el)
     \<and> (val w' = val ?w0 \<or> val w' = None \<or> val w' = Some el)
     \<and> (nextVal ?w0 = None \<longrightarrow> nextVal w' = None)
     \<and> (canReceiveFocus env ?w0 el \<and> activeElement ?w0 \<noteq> None \<and> activeElement ?w0 \<noteq> Some el
          \<and> listening ?w0 OnDocument ''focusout'' HOnFocusOut True \<longrightarrow> nextVal w' = None)
     \<and> (\<exists>ts. trace w' = trace ?w0 @ ts \<and> set (published ts) \<subseteq> {None, Some el})" ..
  have f: "focus (dispatch (Suc n) env) env el a b w = Some (True, w')"
    using True n by (simp add: focus_def elementFocus_programmatic [OF m])
  show ?thesis
    unfolding f using True n by auto
qed

lemma nativeBlur_effect:
  "\<exists>w'. nativeBlur (dispatch (Suc n) env) env el w = Some w'
     \<and> page w w'
     \<and> (val w' = val w \<or> val w' = None)
     \<and> (nextVal w = None \<longrightarrow> nextVal w' = None)
     \<and> (activeElement w = Some el \<longrightarrow> activeElement w' = None)
     \<and> (activeElement w = Some el \<and> listening w OnDocument ''focusout'' HOnFocusOut True
          \<longrightarrow> nextVal w' = None \<and> val w' = None)
     \<and> (\<exists>ts. trace w' = trace w @ ts \<and> set (published ts) \<subseteq> {None})"
proof (cases "activeElement w = Some el")
  case False
  then show ?thesis by (simp add: nativeBlur_def)
next
  case True
  let ?w0 = "w\<lparr>activeElement := None\<rparr>"
  from dispatch_focusOut [of n env el None ?w0] obtain w' where
    d: "dispatch (Suc n) env (FocusOut el None) ?w0 = Some w'
     \<and> frame ?w0 w'
     \<and> lastFocusedProgrammatically w' = lastFocusedProgrammatically ?w0
     \<and> lastResetElement w' = lastResetElement ?w0
     \<and> (if listening ?w0 OnDocument ''focusout'' HOnFocusOut True
         then val w' = None \<and> nextVal w' = None else w' = ?w0)
     \<and> (\<exists>ts. trace w' = trace ?w0 @ ts \<and> set (published ts) \<subseteq> {None})" ..
  then have "page w w'" "activeElement w' = None" by (simp_all add: frame_def page_def)
  with d True show ?thesis by (auto simp: nativeBlur_def split: if_splits)
qed

lemma validate_returns:
  "\<exists>r. validateFocusedElement (dispatch (Suc n) env) env e d w = Some r"
proof -
  have f: "\<exists>x. focus (dispatch (Suc n) env) env t False False W = Some x" for t W
    using focus_effect [where n = n and env = env and el = t and a = False and b = False and w = W] by blast
  have b: "\<exists>x. nativeBlur (dispatch (Suc n) env) env e W = Some x" for W
    using nativeBlur_effect [where n = n and env = env and el = e and w = W] by blast
  show ?thesis
    unfolding validateFocusedElement_def Let_def
    using f b by (auto split: option.splits)
qed

lemma commitSnapshot_returns:
  "\<exists>r. commitSnapshot (dispatch (Suc n) env) env el d w = Some r"
proof (cases el)
  case None
  then show ?thesis by (simp add: commitSnapshot_def Let_def)
next
  case (Some e)
  let ?w1 = "w\<lparr>nextVal := Some \<lparr>addr = heapTop w, snapElement = Some e, snapDetails = d\<rparr>,
                 heapTop := Suc (heapTop w),
                 trace := trace w @ [NewSnapshot (heapTop w) (Some e) d]\<rparr>"
  from validate_returns [where n = n and env = env and e = e and d = d and w = ?w1]
  obtain r where "validateFocusedElement (dispatch (Suc n) env) env e d ?w1 = Some r" ..
  with Some show ?thesis
    by (cases r) (simp_all add: commitSnapshot_def Let_def)
qed

lemma setFocusedElement_returns:
  "\<exists>r. setFocusedElement (dispatch (Suc n) env) env el related w = Some r"
  unfolding setFocusedElement_def Let_def
  using commitSnapshot_returns [where n = n and env = env]
  by (auto split: option.splits)

lemma dispatch_returns: "\<exists>w'. dispatch (Suc (Suc n)) env ev w = Some w'"
proof -
  have r: "\<exists>w'. reportException x = Some w'" if "\<exists>r. x = Some r" for x
  proof -
    from that obtain r where r: "x = Some r" ..
    show ?thesis
    proof (cases r)
      case (Inl t)
      obtain m w1 where "t = (Error m, w1)" by (cases t) (metis error.exhaust)
      with Inl r show ?thesis by (simp add: reportException_def)
    next
      case (Inr w1)
      with r show ?thesis by (simp add: reportException_def)
    qed
  qed
  show ?thesis
    using r setFocusedElement_returns [where n = n and env = env]
    by (cases ev) (simp_all add: dispatch.simps(2) [of "Suc n"] onFocusIn_def onFocusOut_def)
qed

text \<open>
  C4. Every delivery of a focus event to the tracker returns, whatever validation and the
  nested deliveries it causes do, and in the calls it makes, nested ones included, each
  call of \<^verbatim>\<open>setVal\<close> publishes the snapshot that was created last before it: a call of
  \<^verbatim>\<open>_setFocusedElement\<close> that was superseded by a nested one never publishes its own
  snapshot.
\<close>

theorem only_latest_snapshot_published:
  "\<exists>w' ts. dispatch (Suc (Suc n)) env ev w = Some w'
      \<and> trace w' = trace w @ ts \<and> never_stale None ts"
proof -
  from dispatch_returns [of n env ev w] obtain w' where
    d: "dispatch (Suc (Suc n)) env ev w = Some w'" ..
  from well_behaved_dispatch [of "Suc (Suc n)" env] d have "rok (core w) (core w')"
    unfolding well_behaved_def by blast
  then obtain ts where "trace w' = trace w @ ts" "\<forall>cur. never_stale cur ts"
    by (auto simp: rok_def core_def)
  with d show ?thesis by blast
qed


lemmas tracker_defs = dispatch.simps onFocusIn_def onFocusOut_def setFocusedElement_def
  commitSnapshot_def validateFocusedElement_def focus_def elementFocus_def nativeFocus_def
  nativeBlur_def setVal_def superSetVal_def reportException_def listening_def emit_def Let_def

lemmas modal_defs = modalEnv_def modalWorld_def modalRoot_def quietEnv_def init_def
  newTracker_def replaceFocus_def canOverrideNativeFocus_def DOCUMENT_POSITION_PRECEDING_def

lemma modal_redirect_trace:
  "map_option trace (dispatch (Suc (Suc 0)) (modalEnv (Some 45) (Some 46))
       (FocusIn 50 (Some 45)) (modalWorld (Some 45) (Some 46)))
   = Some [NewSnapshot 0 (Some 50)
            \<lparr>relatedTarget = Some 45, isFocusedProgrammatically = Some False\<rparr>,
           SetCurrentGroupper 50,
           NewSnapshot 1 None \<lparr>relatedTarget = Some 46, isFocusedProgrammatically = None\<rparr>,
           SetVal None \<lparr>relatedTarget = Some 46, isFocusedProgrammatically = None\<rparr>,
           NewSnapshot 2 (Some 46)
            \<lparr>relatedTarget = Some 50, isFocusedProgrammatically = Some True\<rparr>,
           SetCurrentGroupper 46,
           SetVal (Some 46)
            \<lparr>relatedTarget = Some 50, isFocusedProgrammatically = Some True\<rparr>,
           Notify (Some 46)
            \<lparr>relatedTarget = Some 50, isFocusedProgrammatically = Some True\<rparr>]"
  by (simp add: tracker_defs modal_defs)

lemma modalWorld_trace: "trace (modalWorld f l) = []"
  by (simp add: modal_defs Let_def)

theorem only_latest_snapshot_published_witness:
  "\<exists>w'. dispatch (Suc (Suc 0)) (modalEnv (Some 45) (Some 46))
           (FocusIn 50 (Some 45)) (modalWorld (Some 45) (Some 46)) = Some w'
     \<and> trace w' =
         [NewSnapshot 0 (Some 50)
            \<lparr>relatedTarget = Some 45, isFocusedProgrammatically = Some False\<rparr>,
          SetCurrentGroupper 50,
          NewSnapshot 1 None \<lparr>relatedTarget = Some 46, isFocusedProgrammatically = None\<rparr>,
          SetVal None \<lparr>relatedTarget = Some 46, isFocusedProgrammatically = None\<rparr>,
          NewSnapshot 2 (Some 46)
            \<lparr>relatedTarget = Some 50, isFocusedProgrammatically = Some True\<rparr>,
          SetCurrentGroupper 46,
          SetVal (Some 46)
            \<lparr>relatedTarget = Some 50, isFocusedProgrammatically = Some True\<rparr>,
          Notify (Some 46)
            \<lparr>relatedTarget = Some 50, isFocusedProgrammatically = Some True\<rparr>]
     \<and> never_stale None (trace w')"
proof -
  from only_latest_snapshot_published
    [of 0 "modalEnv (Some 45) (Some 46)" "FocusIn 50 (Some 45)" "modalWorld (Some 45) (Some 46)"]
  obtain w' ts where
    d: "dispatch (Suc (Suc 0)) (modalEnv (Some 45) (Some 46))
           (FocusIn 50 (Some 45)) (modalWorld (Some 45) (Some 46)) = Some w'"
    and t: "trace w' = trace (modalWorld (Some 45) (Some 46)) @ ts" "never_stale None ts"
    by blast
  from t have n: "never_stale None (trace w')" by (simp add: modalWorld_trace)
  from d modal_redirect_trace have "trace w' =
         [NewSnapshot 0 (Some 50)
            \<lparr>relatedTarget = Some 45, isFocusedProgrammatically = Some False\<rparr>,
          SetCurrentGroupper 50,
          NewSnapshot 1 None \<lparr>relatedTarget = Some 46, isFocusedProgrammatically = None\<rparr>,
          SetVal None \<lparr>relatedTarget = Some 46, isFocusedProgrammatically = None\<rparr>,
          NewSnapshot 2 (Some 46)
            \<lparr>relatedTarget = Some 50, isFocusedProgrammatically = Some True\<rparr>,
          SetCurrentGroupper 46,
          SetVal (Some 46)
            \<lparr>relatedTarget = Some 50, isFocusedProgrammatically = Some True\<rparr>,
          Notify (Some 46)
            \<lparr>relatedTarget = Some 50, isFocusedProgrammatically = Some True\<rparr>]"
    by simp
  with d n show ?thesis by blast
qed


lemma listening_more_simps [simp]:
  "listening (w\<lparr>nextVal := a\<rparr>) t ty h c = listening w t ty h c"
  "listening (w\<lparr>heapTop := b\<rparr>) t ty h c = listening w t ty h c"
  "listening (w\<lparr>trace := cs\<rparr>) t ty h c = listening w t ty h c"
  "listening (w\<lparr>val := v\<rparr>) t ty h c = listening w t ty h c"
  by (simp_all add: listening_def)









subsection \<open>Resetting the focus\<close>




lemma other_fields_setOrRemoveAttribute [simp]:
  "val (setOrRemoveAttribute e name v w) = val w"
  "trace (setOrRemoveAttribute e name v w) = trace w"
  "activeElement (setOrRemoveAttribute e name v w) = activeElement w"
  by (cases v; simp add: setOrRemoveAttribute_def setAttribute_def removeAttribute_def)+








subsection \<open>Attribution of programmatic focus\<close>








end
